theory Spec2Isabelle
  imports Complex_Main "HOL-Library.Word"
begin

unbundle bit_operations_syntax

section \<open>JavaScript numbers on the audio path\<close>

text \<open>
  The samples of a \<^verbatim>\<open>Float32Array\<close> are read as JavaScript numbers. A number is a finite
  value, one of the two infinities, or NaN. Finite values are kept as reals: every float
  is a real, and on the codec path the arithmetic of \<^verbatim>\<open>src/utils/audio.ts\<close> is exact on
  them (a 24-bit significand times \<^verbatim>\<open>0x8000\<close> or \<^verbatim>\<open>0x7FFF\<close> fits the 53 bits of a double,
  and a 16-bit integer divided by 32768 fits a float), so no rounding is lost by the
  model. Negative zero is identified with zero; both store the integer 0.
\<close>

datatype error = InvalidCharacterError | RangeError | NotSupportedError | TransmitError

datatype number = Finite real | PosInf | NegInf | NaN

text \<open>The comparison \<^verbatim>\<open>a < b\<close>: false as soon as one side is NaN.\<close>

fun js_lt :: "number \<Rightarrow> number \<Rightarrow> bool" where
  "js_lt NaN _ = False"
| "js_lt _ NaN = False"
| "js_lt (Finite a) (Finite b) = (a < b)"
| "js_lt NegInf NegInf = False"
| "js_lt NegInf _ = True"
| "js_lt _ NegInf = False"
| "js_lt PosInf _ = False"
| "js_lt _ PosInf = True"

text \<open>\<^verbatim>\<open>Math.min\<close> and \<^verbatim>\<open>Math.max\<close> return NaN when an argument is NaN.\<close>

definition Math_min :: "number \<Rightarrow> number \<Rightarrow> number" where
  "Math_min a b = (if a = NaN \<or> b = NaN then NaN else if js_lt b a then b else a)"

definition Math_max :: "number \<Rightarrow> number \<Rightarrow> number" where
  "Math_max a b = (if a = NaN \<or> b = NaN then NaN else if js_lt a b then b else a)"

fun js_times :: "number \<Rightarrow> number \<Rightarrow> number" where
  "js_times NaN _ = NaN"
| "js_times _ NaN = NaN"
| "js_times (Finite a) (Finite b) = Finite (a * b)"
| "js_times (Finite a) PosInf = (if a = 0 then NaN else if 0 < a then PosInf else NegInf)"
| "js_times (Finite a) NegInf = (if a = 0 then NaN else if 0 < a then NegInf else PosInf)"
| "js_times PosInf (Finite b) = (if b = 0 then NaN else if 0 < b then PosInf else NegInf)"
| "js_times NegInf (Finite b) = (if b = 0 then NaN else if 0 < b then NegInf else PosInf)"
| "js_times PosInf PosInf = PosInf"
| "js_times NegInf NegInf = PosInf"
| "js_times PosInf NegInf = NegInf"
| "js_times NegInf PosInf = NegInf"

text \<open>
  Storing a number into an \<^verbatim>\<open>Int16Array\<close> applies ToInt16: NaN and the infinities become
  0, a finite value is truncated towards zero and reduced modulo \<open>2 ^ 16\<close>.
\<close>

definition trunc :: "real \<Rightarrow> int" where
  "trunc r = (if 0 \<le> r then \<lfloor>r\<rfloor> else \<lceil>r\<rceil>)"

fun ToInt16 :: "number \<Rightarrow> 16 word" where
  "ToInt16 (Finite r) = word_of_int (trunc r)"
| "ToInt16 _ = 0"

subsection \<open>Rounding to a double\<close>

text \<open>
  Outside the codec the arithmetic of the code is not exact: a quotient, a product or a
  sum of doubles is rounded to the nearest double, ties to the even significand.
  \<open>binade x\<close> is the exponent \<open>e\<close> with \<open>2 ^ e \<le> \<bar>x\<bar> < 2 ^ (e + 1)\<close>, and \<open>fl x\<close> is \<open>x\<close> rounded
  to 53 significant bits. Overflow to infinity and subnormal numbers are not modelled;
  the rates, lengths and times of this program stay far from both.
\<close>

function binade_pos :: "real \<Rightarrow> int" where
  "binade_pos a =
     (if 2 \<le> a then binade_pos (a / 2) + 1
      else if 0 < a \<and> a < 1 then binade_pos (a * 2) - 1
      else 0)"
  by pat_completeness auto
termination
proof (relation "measure (\<lambda>a. if 1 \<le> a then nat \<lfloor>log 2 a\<rfloor> else nat \<lceil>- log 2 a\<rceil>)")
  show "wf (measure (\<lambda>a. if 1 \<le> a then nat \<lfloor>log 2 a\<rfloor> else nat \<lceil>- log 2 a\<rceil>))"
    by simp
next
  fix a :: real
  assume a: "2 \<le> a"
  then have l: "log 2 (a / 2) = log 2 a - 1" by (simp add: log_divide)
  from a have "1 \<le> log 2 a" by (simp add: le_log_iff)
  then have "1 \<le> \<lfloor>log 2 a\<rfloor>" by simp
  then show "(a / 2, a) \<in> measure (\<lambda>a. if 1 \<le> a then nat \<lfloor>log 2 a\<rfloor> else nat \<lceil>- log 2 a\<rceil>)"
    using a by (simp add: l)
next
  fix a :: real
  assume "\<not> 2 \<le> a" and a: "0 < a \<and> a < 1"
  then have l: "log 2 (a * 2) = log 2 a + 1" by (simp add: log_mult)
  from a have n: "log 2 a < 0" by simp
  show "(a * 2, a) \<in> measure (\<lambda>a. if 1 \<le> a then nat \<lfloor>log 2 a\<rfloor> else nat \<lceil>- log 2 a\<rceil>)"
  proof (cases "1 \<le> a * 2")
    case True
    then have "0 \<le> log 2 (a * 2)" by (simp add: le_log_iff)
    with l n have "\<lfloor>log 2 (a * 2)\<rfloor> = 0" by linarith
    moreover from n have "1 \<le> \<lceil>- log 2 a\<rceil>" by linarith
    ultimately show ?thesis using a True by simp
  next
    case False
    then have "log 2 (a * 2) < 0" using a by simp
    with l have "1 < - log 2 a" by linarith
    then have "2 \<le> \<lceil>- log 2 a\<rceil>" by linarith
    moreover have "\<lceil>- log 2 (a * 2)\<rceil> = \<lceil>- log 2 a\<rceil> - 1" unfolding l by linarith
    ultimately show ?thesis using a False by simp
  qed
qed

declare binade_pos.simps [simp del]

definition binade :: "real \<Rightarrow> int" where
  "binade x = binade_pos \<bar>x\<bar>"

definition round_half_even :: "real \<Rightarrow> int" where
  "round_half_even y =
     (let f = \<lfloor>y\<rfloor>
      in if y - of_int f < 1 / 2 then f
         else if 1 / 2 < y - of_int f then f + 1
         else if even f then f else f + 1)"

definition fl :: "real \<Rightarrow> real" where
  "fl x =
     (if x = 0 then 0
      else of_int (round_half_even (x / 2 powi (binade x - 52))) * 2 powi (binade x - 52))"

section \<open>The audio codec (\<^verbatim>\<open>src/utils/audio.ts\<close>)\<close>

text \<open>
  The body of the first loop of \<^verbatim>\<open>float32ArrayToBase64\<close>:
  \<^verbatim>\<open>const s = Math.max(-1, Math.min(1, data[i])); int16[i] = s < 0 ? s * 0x8000 : s * 0x7FFF;\<close>
\<close>

definition pcm16 :: "number \<Rightarrow> 16 word" where
  "pcm16 x =
     (let s = Math_max (Finite (- 1)) (Math_min (Finite 1) x)
      in ToInt16 (if js_lt s (Finite 0) then js_times s (Finite 32768)
                  else js_times s (Finite 32767)))"

text \<open>
  \<^verbatim>\<open>new Uint8Array(int16.buffer)\<close> and \<^verbatim>\<open>new Int16Array(bytes.buffer)\<close> view the same memory
  in the byte order of the platform, which is little-endian on every platform that runs
  this code: the low byte comes first.
\<close>

definition int16_bytes :: "16 word \<Rightarrow> 8 word list" where
  "int16_bytes w = [ucast w, ucast (drop_bit 8 w)]"

definition bytes_int16 :: "8 word \<Rightarrow> 8 word \<Rightarrow> 16 word" where
  "bytes_int16 lo hi = ucast lo OR push_bit 8 (ucast hi)"

fun Int16Array_view :: "8 word list \<Rightarrow> 16 word list" where
  "Int16Array_view (lo # hi # rest) = bytes_int16 lo hi # Int16Array_view rest"
| "Int16Array_view _ = []"

text \<open>
  A binary string holds one code unit below 256 per byte, which is what a \<^typ>\<open>char\<close> is.
\<close>

definition fromCharCode :: "8 word \<Rightarrow> char" where
  "fromCharCode b = char_of (unat b)"

definition charCodeAt :: "char \<Rightarrow> 8 word" where
  "charCodeAt c = word_of_nat (of_char c)"

subsection \<open>The platform's \<^verbatim>\<open>btoa\<close> and \<^verbatim>\<open>atob\<close>\<close>

text \<open>
  \<^verbatim>\<open>btoa\<close> is base64 with the standard alphabet and \<^verbatim>\<open>=\<close> padding. Its argument is a
  binary string, so the exception it raises on a code unit above 255 cannot occur.
\<close>

definition b64_char :: "nat \<Rightarrow> char" where
  "b64_char n = char_of (if n < 26 then n + 65 else if n < 52 then n + 71
                         else if n < 62 then n - 4 else if n = 62 then 43 else (47::nat))"

definition b64_index :: "char \<Rightarrow> nat option" where
  "b64_index c =
     (let n = (of_char c :: nat)
      in if 65 \<le> n \<and> n \<le> 90 then Some (n - 65)
         else if 97 \<le> n \<and> n \<le> 122 then Some (n - 71)
         else if 48 \<le> n \<and> n \<le> 57 then Some (n + 4)
         else if n = 43 then Some 62
         else if n = 47 then Some 63
         else None)"

fun sextets :: "string \<Rightarrow> nat list" where
  "sextets (a # b # c # rest) =
     (let x = (of_char a :: nat); y = (of_char b :: nat); z = (of_char c :: nat)
      in [x div 4, (x mod 4) * 16 + y div 16, (y mod 16) * 4 + z div 64, z mod 64])
     @ sextets rest"
| "sextets [a, b] =
     (let x = (of_char a :: nat); y = (of_char b :: nat)
      in [x div 4, (x mod 4) * 16 + y div 16, (y mod 16) * 4])"
| "sextets [a] = (let x = (of_char a :: nat) in [x div 4, (x mod 4) * 16])"
| "sextets [] = []"

definition btoa :: "string \<Rightarrow> string" where
  "btoa s = map b64_char (sextets s) @ replicate ((3 - length s mod 3) mod 3) (CHR ''='')"

text \<open>
  \<^verbatim>\<open>atob\<close> is the forgiving base64 decoder: it drops ASCII whitespace, drops one or two
  trailing \<^verbatim>\<open>=\<close> when the length is a multiple of four, fails when the remaining length
  is 1 modulo 4 or when a character is outside the alphabet, and discards the bits left
  over after the last whole byte.
\<close>

definition is_ascii_whitespace :: "char \<Rightarrow> bool" where
  "is_ascii_whitespace c = ((of_char c :: nat) \<in> {9, 10, 12, 13, 32})"

definition strip_padding :: "string \<Rightarrow> string" where
  "strip_padding d =
     (if d \<noteq> [] \<and> last d = CHR ''='' then
        (let d1 = butlast d in if d1 \<noteq> [] \<and> last d1 = CHR ''='' then butlast d1 else d1)
      else d)"

fun unsextets :: "nat list \<Rightarrow> string" where
  "unsextets (p # q # r # s # rest) =
     [char_of (p * 4 + q div 16), char_of ((q mod 16) * 16 + r div 4), char_of ((r mod 4) * 64 + s)]
     @ unsextets rest"
| "unsextets [p, q, r] = [char_of (p * 4 + q div 16), char_of ((q mod 16) * 16 + r div 4)]"
| "unsextets [p, q] = [char_of (p * 4 + q div 16)]"
| "unsextets _ = []"

definition atob :: "string \<Rightarrow> error + string" where
  "atob s =
     (let d = filter (\<lambda>c. \<not> is_ascii_whitespace c) s;
          d' = (if length d mod 4 = 0 then strip_padding d else d)
      in if length d' mod 4 = 1 then Inl InvalidCharacterError
         else (case those (map b64_index d') of
                 None \<Rightarrow> Inl InvalidCharacterError
               | Some ns \<Rightarrow> Inr (unsextets ns)))"

subsection \<open>\<^verbatim>\<open>base64ToFloat32Array\<close> and \<^verbatim>\<open>float32ArrayToBase64\<close>\<close>

text \<open>
  \<^verbatim>\<open>new Int16Array(bytes.buffer)\<close> raises a RangeError when the byte length is odd; the
  exception of \<^verbatim>\<open>atob\<close> propagates as well. Each sample is \<^verbatim>\<open>int16Array[i] / 32768.0\<close>.
\<close>

definition base64ToFloat32Array :: "string \<Rightarrow> error + number list" where
  "base64ToFloat32Array base64 =
     (case atob base64 of
        Inl e \<Rightarrow> Inl e
      | Inr binaryString \<Rightarrow>
          (let bytes = map charCodeAt binaryString
           in if odd (length bytes) then Inl RangeError
              else Inr (map (\<lambda>w. Finite (real_of_int (sint w) / 32768)) (Int16Array_view bytes))))"

definition float32ArrayToBase64 :: "number list \<Rightarrow> string" where
  "float32ArrayToBase64 data =
     btoa (map fromCharCode (concat (map (\<lambda>x. int16_bytes (pcm16 x)) data)))"

text \<open>
  \<^verbatim>\<open>decodeAudioData\<close> copies the decoded samples into a one-channel buffer of the given
  rate, which \<^verbatim>\<open>createBuffer\<close> refuses to create with no sample frame at all; the buffer's
  duration is its length divided by the rate, a double.
\<close>

record AudioBuffer =
  channelData :: "number list"
  sampleRate :: real

definition duration :: "AudioBuffer \<Rightarrow> real" where
  "duration b = fl (real (length (channelData b)) / sampleRate b)"

definition decodeAudioData :: "string \<Rightarrow> real \<Rightarrow> error + AudioBuffer" where
  "decodeAudioData base64 rate =
     (case base64ToFloat32Array base64 of
        Inl e \<Rightarrow> Inl e
      | Inr float32Data \<Rightarrow>
          if float32Data = [] then Inl NotSupportedError
          else Inr \<lparr>channelData = float32Data, sampleRate = rate\<rparr>)"

subsection \<open>The codec as the specification words it\<close>

text \<open>
  The specification's reading of the encoder, for comparison with \<^const>\<open>pcm16\<close>: clamp
  to \<open>[-1, 1]\<close>, scale a negative sample by 32768 and any other by 32767, truncate. An
  infinite sample clamps to the bound it exceeds; NaN, which no clamp brings into range,
  is stored as 0 by the integer conversion.
\<close>

definition clamp :: "real \<Rightarrow> real" where
  "clamp r = max (- 1) (min 1 r)"

definition spec_int16 :: "real \<Rightarrow> int" where
  "spec_int16 r = (if clamp r < 0 then trunc (clamp r * 32768) else trunc (clamp r * 32767))"

fun stored_int16_spec :: "number \<Rightarrow> int" where
  "stored_int16_spec (Finite r) = spec_int16 r"
| "stored_int16_spec PosInf = spec_int16 1"
| "stored_int16_spec NegInf = spec_int16 (- 1)"
| "stored_int16_spec NaN = 0"

text \<open>Little-endian serialisation of a 16-bit two's complement integer: low byte first.\<close>

definition little_endian_spec :: "int \<Rightarrow> nat list" where
  "little_endian_spec k = [nat (k mod 256), nat ((k div 256) mod 256)]"

definition in_pcm_range :: "number \<Rightarrow> bool" where
  "in_pcm_range y = (case y of Finite r \<Rightarrow> - 1 \<le> r \<and> r \<le> 32767 / 32768 | _ \<Rightarrow> False)"

section \<open>The capture path (\<^verbatim>\<open>onaudioprocess\<close> in \<^verbatim>\<open>InterviewSession.tsx\<close>)\<close>

text \<open>
  Reading a typed array past its end yields \<^verbatim>\<open>undefined\<close>, which a \<^verbatim>\<open>Float32Array\<close>
  stores as NaN.
\<close>

definition typed_read :: "number list \<Rightarrow> nat \<Rightarrow> number" where
  "typed_read xs j = (if j < length xs then xs ! j else NaN)"

text \<open>
  The downsampling loop:
  \<^verbatim>\<open>const ratio = inputSampleRate / 16000;\<close>
  \<^verbatim>\<open>const newLength = Math.floor(inputData.length / ratio);\<close>
  \<^verbatim>\<open>for (let i = 0; i < newLength; i++) downsampled[i] = inputData[Math.floor(i * ratio)];\<close>
  The rate is a double; the two quotients and the product are rounded to doubles before
  the floor is taken.
\<close>

definition downsample :: "real \<Rightarrow> number list \<Rightarrow> number list" where
  "downsample inputSampleRate inputData =
     (let ratio = fl (inputSampleRate / 16000);
          newLength = nat \<lfloor>fl (real (length inputData) / ratio)\<rfloor>
      in map (\<lambda>i. typed_read inputData (nat \<lfloor>fl (real i * ratio)\<rfloor>)) [0..<newLength])"

definition processingData :: "real \<Rightarrow> number list \<Rightarrow> number list" where
  "processingData inputSampleRate inputData =
     (if inputSampleRate > 16000 then downsample inputSampleRate inputData else inputData)"

section \<open>The transcript log\<close>

datatype role = User | Model

record TranscriptEntry =
  role :: role
  entry_text :: string

text \<open>
  The updater passed to \<^verbatim>\<open>setTranscript\<close>: \<^verbatim>\<open>prev[prev.length - 1]\<close> is undefined on an
  empty log, and then \<^verbatim>\<open>last?.role\<close> equals no role.
\<close>

definition merge_fragment :: "role \<Rightarrow> string \<Rightarrow> TranscriptEntry list \<Rightarrow> TranscriptEntry list" where
  "merge_fragment r t prev =
     (if prev \<noteq> [] \<and> role (last prev) = r
      then butlast prev @ [(last prev)\<lparr>entry_text := entry_text (last prev) @ t\<rparr>]
      else prev @ [\<lparr>role = r, entry_text = t\<rparr>])"

definition role_label :: "role \<Rightarrow> string" where
  "role_label r = (case r of User \<Rightarrow> ''Candidate'' | Model \<Rightarrow> ''Interviewer'')"

definition transcript_line :: "TranscriptEntry \<Rightarrow> string" where
  "transcript_line t = role_label (role t) @ '': '' @ entry_text t"

fun join :: "string \<Rightarrow> string list \<Rightarrow> string" where
  "join sep [] = []"
| "join sep [x] = x"
| "join sep (x # y # rest) = x @ sep @ join sep (y # rest)"

text \<open>
  \<^verbatim>\<open>transcript.map(...).join('\n\n') || transcriptTextRef.current || "No transcript available."\<close>:
  an empty string is falsy.
\<close>

definition finalTranscript :: "TranscriptEntry list \<Rightarrow> string \<Rightarrow> string" where
  "finalTranscript transcript transcriptText =
     (let joined = join [CHR 0x0A, CHR 0x0A] (map transcript_line transcript)
      in if joined \<noteq> [] then joined
         else if transcriptText \<noteq> [] then transcriptText
         else ''No transcript available.'')"

text \<open>
  \<^verbatim>\<open>handleInterviewComplete\<close> of the application, which receives the transcript from
  \<^verbatim>\<open>onComplete\<close>: it returns at once without an analysis, and otherwise hands
  \<^verbatim>\<open>transcript || "No conversation recorded."\<close> to the report generator. The result is
  the text handed over, if any.
\<close>

definition handleInterviewComplete :: "bool \<Rightarrow> string \<Rightarrow> string option" where
  "handleInterviewComplete analysis transcript =
     (if \<not> analysis then None
      else Some (if transcript \<noteq> [] then transcript else ''No conversation recorded.''))"

section \<open>The session state\<close>

text \<open>
  The React state and the refs of \<^verbatim>\<open>InterviewSession\<close> that the callbacks read and write,
  with three logs of what the component did to its collaborators: the payloads accepted
  by the channel's \<^verbatim>\<open>sendRealtimeInput\<close>, the buffers started on the output timeline
  (start time and duration) and the transcripts handed to \<^verbatim>\<open>onComplete\<close>. Resources are
  represented by handles. The audio graph nodes and the visualizer are left out.
\<close>

type_synonym handle = nat

record session =
  hasStarted :: bool
  isConnected :: bool
  timeLeft :: int
  status :: string
  errorState :: "string option"
  transcript :: "TranscriptEntry list"
  activeSessionRef :: "handle option"
  audioContextRef :: "handle option"
  inputAudioContextRef :: "handle option"
  outputAnalyserRef :: "handle option"
  streamRef :: "handle option"
  nextStartTimeRef :: real
  transcriptTextRef :: string
  isConnectedRef :: bool
  connectionIdRef :: string
  isMicOnRef :: bool
  isEndedRef :: bool
  intervalActive :: bool
  sent :: "string list"
  started :: "(real \<times> real) list"
  completed :: "string list"

definition initial_session :: "int \<Rightarrow> session" where
  "initial_session minutes =
     \<lparr>hasStarted = False, isConnected = False, timeLeft = minutes * 60, status = [],
      errorState = None, transcript = [], activeSessionRef = None, audioContextRef = None,
      inputAudioContextRef = None, outputAnalyserRef = None, streamRef = None,
      nextStartTimeRef = 0, transcriptTextRef = [], isConnectedRef = False,
      connectionIdRef = [], isMicOnRef = True, isEndedRef = False, intervalActive = False,
      sent = [], started = [], completed = []\<rparr>"

text \<open>
  \<^verbatim>\<open>cleanupAudio\<close> invalidates the generation first, then closes the channel, stops the
  stream and closes the audio contexts. It is taken as one step: while it awaits, every
  callback of the old generation finds a stale token.
\<close>

definition cleanupAudio :: "session \<Rightarrow> session" where
  "cleanupAudio s =
     s\<lparr>connectionIdRef := [], activeSessionRef := None, isConnectedRef := False,
       streamRef := None, inputAudioContextRef := None, audioContextRef := None\<rparr>"

text \<open>
  \<^verbatim>\<open>startSession\<close> up to the request for the microphone, in a browser that offers one: the
  clean-up and the reset that follows it, taken as one step. The token is
  \<^verbatim>\<open>Date.now().toString()\<close>, given by the caller.
\<close>

definition startSession :: "string \<Rightarrow> int \<Rightarrow> session \<Rightarrow> session" where
  "startSession currentConnectionId minutes s =
     (cleanupAudio (s\<lparr>errorState := None, status := ''Initializing...''\<rparr>))
       \<lparr>connectionIdRef := currentConnectionId, isEndedRef := False, isConnectedRef := False,
        nextStartTimeRef := 0, transcriptTextRef := [], transcript := [],
        isConnected := False, timeLeft := minutes * 60,
        status := ''Requesting microphone...''\<rparr>"

text \<open>
  The continuations of \<^verbatim>\<open>startSession\<close> after the microphone is acquired and after the
  channel is connected. A stale continuation releases what it was given (the second
  component of the result) and leaves the session alone. A current one stores the stream
  and, when neither audio context starts suspended, runs on to the connect call: it
  stores the output context, its analyser and the input context, and sets
  \<^verbatim>\<open>hasStarted\<close>.
\<close>

datatype release = StopTracks handle | CloseSession handle

definition after_getUserMedia ::
    "string \<Rightarrow> handle \<Rightarrow> handle \<Rightarrow> handle \<Rightarrow> handle \<Rightarrow> session \<Rightarrow> session \<times> release list" where
  "after_getUserMedia currentConnectionId stream ctx analyser inputCtx s =
     (if connectionIdRef s \<noteq> currentConnectionId then (s, [StopTracks stream])
      else (s\<lparr>streamRef := Some stream, audioContextRef := Some ctx,
               outputAnalyserRef := Some analyser, inputAudioContextRef := Some inputCtx,
               status := ''Connecting to AI...'', hasStarted := True\<rparr>, []))"

definition after_connect :: "string \<Rightarrow> handle \<Rightarrow> session \<Rightarrow> session \<times> release list" where
  "after_connect currentConnectionId h s =
     (if connectionIdRef s = currentConnectionId then (s\<lparr>activeSessionRef := Some h\<rparr>, [])
      else (s, [CloseSession h]))"

subsection \<open>Channel callbacks\<close>

definition onopen :: "string \<Rightarrow> session \<Rightarrow> session" where
  "onopen currentConnectionId s =
     (if connectionIdRef s = currentConnectionId
      then s\<lparr>isConnectedRef := True, isConnected := True, status := ''Interview in Progress''\<rparr>
      else s)"

definition onclose :: "string \<Rightarrow> session \<Rightarrow> session" where
  "onclose currentConnectionId s =
     (if connectionIdRef s = currentConnectionId
      then s\<lparr>isConnectedRef := False, isConnected := False\<rparr>
      else s)"

definition onerror :: "string \<Rightarrow> session \<Rightarrow> session" where
  "onerror currentConnectionId s =
     (if connectionIdRef s = currentConnectionId
      then s\<lparr>isConnectedRef := False, isConnected := False,
             errorState := Some ''Connection interrupted. Please try restarting.''\<rparr>
      else s)"

text \<open>
  An inbound message: each part is optional. A part that is present but empty is falsy
  and is skipped like an absent one.
\<close>

record message =
  audioData :: "string option"
  inputTranscription :: "string option"
  outputTranscription :: "string option"

text \<open>
  Scheduling one decoded buffer, with \<open>now\<close> the output context's \<^verbatim>\<open>currentTime\<close>:
  \<^verbatim>\<open>const startTime = Math.max(now, nextStartTimeRef.current); source.start(startTime);\<close>
  \<^verbatim>\<open>nextStartTimeRef.current = startTime + buffer.duration;\<close>
  The sum is rounded to a double.
\<close>

definition schedule_buffer :: "real \<Rightarrow> real \<Rightarrow> session \<Rightarrow> session" where
  "schedule_buffer now d s =
     (let startTime = max now (nextStartTimeRef s)
      in s\<lparr>started := started s @ [(startTime, d)], nextStartTimeRef := fl (startTime + d)\<rparr>)"

definition play_audio :: "real \<Rightarrow> message \<Rightarrow> session \<Rightarrow> error + session" where
  "play_audio now m s =
     (case audioData m of
        None \<Rightarrow> Inr s
      | Some a \<Rightarrow>
          if a \<noteq> [] \<and> audioContextRef s \<noteq> None \<and> outputAnalyserRef s \<noteq> None then
            (case decodeAudioData a 24000 of
               Inl e \<Rightarrow> Inl e
             | Inr buffer \<Rightarrow> Inr (schedule_buffer now (duration buffer) s))
          else Inr s)"

definition receive_fragment :: "role \<Rightarrow> string option \<Rightarrow> session \<Rightarrow> session" where
  "receive_fragment r fragment s =
     (case fragment of
        None \<Rightarrow> s
      | Some t \<Rightarrow>
          if t \<noteq> [] then
            s\<lparr>transcriptTextRef := transcriptTextRef s @ t,
              transcript := merge_fragment r t (transcript s)\<rparr>
          else s)"

text \<open>
  \<^verbatim>\<open>onmessage\<close>: the token is checked on entry; an exception of the decoder is caught
  by the handler, which then skips the rest of the message. The handler is taken as one
  step: its only suspension is the \<^verbatim>\<open>await\<close> of \<^verbatim>\<open>decodeAudioData\<close>, which itself never
  suspends.
\<close>

definition onmessage :: "string \<Rightarrow> real \<Rightarrow> message \<Rightarrow> session \<Rightarrow> session" where
  "onmessage currentConnectionId now m s =
     (if connectionIdRef s \<noteq> currentConnectionId then s
      else (case play_audio now m s of
              Inl e \<Rightarrow> s
            | Inr s1 \<Rightarrow>
                receive_fragment Model (outputTranscription m)
                  (receive_fragment User (inputTranscription m) s1)))"

subsection \<open>The capture callback\<close>

text \<open>
  The channel's send either accepts the payload or throws; which of the two is the
  environment's choice, given as \<open>throws\<close>.
\<close>

definition sendRealtimeInput :: "bool \<Rightarrow> string \<Rightarrow> session \<Rightarrow> error + session" where
  "sendRealtimeInput throws data s =
     (if throws then Inl TransmitError else Inr (s\<lparr>sent := sent s @ [data]\<rparr>))"

definition onaudioprocess :: "string \<Rightarrow> real \<Rightarrow> number list \<Rightarrow> bool \<Rightarrow> session \<Rightarrow> session" where
  "onaudioprocess currentConnectionId inputSampleRate inputData throws s =
     (if connectionIdRef s \<noteq> currentConnectionId \<or> \<not> isConnectedRef s \<or> \<not> isMicOnRef s then s
      else if activeSessionRef s = None then s
      else
        (let base64Data = float32ArrayToBase64 (processingData inputSampleRate inputData)
         in case sendRealtimeInput throws base64Data s of
              Inl err \<Rightarrow> s
            | Inr s' \<Rightarrow> s'))"

subsection \<open>Ending the interview\<close>

text \<open>
  \<^verbatim>\<open>handleEndInterview\<close> reads the \<^verbatim>\<open>transcript\<close> of the render that created the closure
  it runs in; that array is the first argument. The call of \<^verbatim>\<open>onComplete\<close>, made from a
  timeout that nothing cancels, is recorded when it is scheduled. The clean-up in between
  is taken not to throw.
\<close>

definition handleEndInterview :: "TranscriptEntry list \<Rightarrow> session \<Rightarrow> session" where
  "handleEndInterview closure_transcript s =
     (if isEndedRef s then s
      else
        (let s1 = cleanupAudio (s\<lparr>isEndedRef := True, status := ''Finalizing...''\<rparr>);
             s2 = s1\<lparr>isConnected := False\<rparr>
         in s2\<lparr>completed := completed s2 @ [finalTranscript closure_transcript (transcriptTextRef s2)]\<rparr>))"

text \<open>
  The End button calls the \<^verbatim>\<open>handleEndInterview\<close> of the current render, which sees the
  current log.
\<close>

definition end_button :: "session \<Rightarrow> session" where
  "end_button s = handleEndInterview (transcript s) s"


definition tick :: "TranscriptEntry list \<Rightarrow> session \<Rightarrow> session" where
  "tick closure_transcript s =
     (if \<not> intervalActive s then s
      else if timeLeft s \<le> 1
      then (handleEndInterview closure_transcript (s\<lparr>intervalActive := False\<rparr>))\<lparr>timeLeft := 0\<rparr>
      else s\<lparr>timeLeft := timeLeft s - 1\<rparr>)"






subsection \<open>Sequences of messages\<close>

definition handle_messages :: "(string \<times> real \<times> message) list \<Rightarrow> session \<Rightarrow> session" where
  "handle_messages ms s = foldl (\<lambda>s (token, now, m). onmessage token now m s) s ms"

text \<open>
  Read off the log of started buffers: the cursor that the buffer before the \<open>j\<close>-th left
  behind (0 before the first), and the running sum of durations as the code would add
  them, each partial sum rounded to a double.
\<close>

definition cursor_before :: "(real \<times> real) list \<Rightarrow> nat \<Rightarrow> real" where
  "cursor_before bs j = (if j = 0 then 0 else fl (fst (bs ! (j - 1)) + snd (bs ! (j - 1))))"

definition float_sum :: "real list \<Rightarrow> real" where
  "float_sum ds = foldl (\<lambda>a d. fl (a + d)) 0 ds"

text \<open>
  What a well-scheduled log and cursor look like; \<open>T\<close> holds the values of \<^verbatim>\<open>currentTime\<close>
  met so far.
\<close>

definition schedule_ok :: "real set \<Rightarrow> (real \<times> real) list \<Rightarrow> real \<Rightarrow> bool" where
  "schedule_ok T bs c \<longleftrightarrow>
     c = cursor_before bs (length bs) \<and> 0 \<le> c \<and>
     0 \<le> float_sum (map snd bs) \<and> float_sum (map snd bs) \<le> c \<and>
     ((\<forall>k < length bs. fst (bs ! k) = cursor_before bs k) \<longrightarrow> c = float_sum (map snd bs)) \<and>
     (\<forall>j < length bs.
        0 \<le> snd (bs ! j) \<and> 0 \<le> fst (bs ! j) \<and> cursor_before bs j \<le> fst (bs ! j) \<and>
        float_sum (map snd (take j bs)) \<le> fst (bs ! j) \<and>
        ((\<forall>k \<le> j. fst (bs ! k) = cursor_before bs k) \<longrightarrow>
           fst (bs ! j) = float_sum (map snd (take j bs))) \<and>
        (fst (bs ! j) = cursor_before bs j \<or> fst (bs ! j) \<in> T))"

text \<open>
  The transcript update as the specification words it: a fragment with text is appended
  to the last entry when that entry has its role, and pushed as a new entry otherwise.
  An absent or empty fragment changes nothing.
\<close>

definition merged_spec :: "role \<Rightarrow> string option \<Rightarrow> TranscriptEntry list \<Rightarrow> TranscriptEntry list" where
  "merged_spec r fragment entries =
     (case fragment of
        None \<Rightarrow> entries
      | Some t \<Rightarrow>
          if t = [] then entries
          else if entries \<noteq> [] \<and> role (last entries) = r
          then butlast entries @ [\<lparr>role = r, entry_text = entry_text (last entries) @ t\<rparr>]
          else entries @ [\<lparr>role = r, entry_text = t\<rparr>])"

text \<open>Whether the audio part of a message makes the handler's decoder throw.\<close>

definition audio_throws :: "message \<Rightarrow> session \<Rightarrow> bool" where
  "audio_throws m s =
     (case audioData m of
        None \<Rightarrow> False
      | Some a \<Rightarrow> a \<noteq> [] \<and> audioContextRef s \<noteq> None \<and> outputAnalyserRef s \<noteq> None \<and>
                  isl (decodeAudioData a 24000))"

text \<open>A message that carries one transcript fragment, or one audio chunk, and nothing else.\<close>

definition fragment_message :: "role \<Rightarrow> string \<Rightarrow> message" where
  "fragment_message r t =
     \<lparr>audioData = None,
      inputTranscription = (if r = User then Some t else None),
      outputTranscription = (if r = Model then Some t else None)\<rparr>"

definition audio_message :: "string \<Rightarrow> message" where
  "audio_message a = \<lparr>audioData = Some a, inputTranscription = None, outputTranscription = None\<rparr>"

fun no_adjacent_same_role :: "TranscriptEntry list \<Rightarrow> bool" where
  "no_adjacent_same_role (x # y # rest) = (role x \<noteq> role y \<and> no_adjacent_same_role (y # rest))"
| "no_adjacent_same_role _ = True"


section \<open>Properties of the rounding\<close>

lemma binade_pos_log: "0 < a \<Longrightarrow> binade_pos a = \<lfloor>log 2 a\<rfloor>"
proof (induction a rule: binade_pos.induct)
  case (1 a)
  show ?case
  proof (cases "2 \<le> a")
    case True
    then have "log 2 (a / 2) = log 2 a - 1" by (simp add: log_divide)
    with 1 True show ?thesis by (subst binade_pos.simps) simp
  next
    case False
    show ?thesis
    proof (cases "a < 1")
      case True
      with 1(3) have "log 2 (a * 2) = log 2 a + 1" by (simp add: log_mult)
      with 1 False True show ?thesis by (subst binade_pos.simps) simp
    next
      case F2: False
      with False have "0 \<le> log 2 a" "log 2 a < 1" by (simp_all add: le_log_iff log_less_iff)
      then have "\<lfloor>log 2 a\<rfloor> = 0" by linarith
      with False F2 show ?thesis by (subst binade_pos.simps) simp
    qed
  qed
qed

lemma powr_powi:
  "2 powr (real_of_int e) = (2::real) powi e" "2 powr (real_of_int e + 1) = (2::real) powi (e + 1)"
  using powr_real_of_int' [of 2 e] powr_real_of_int' [of 2 "e + 1"] by simp_all

lemma binade_bounds:
  assumes "x \<noteq> 0"
  shows "2 powi binade x \<le> \<bar>x\<bar>" and "\<bar>x\<bar> < 2 powi (binade x + 1)"
proof -
  from assms have p: "0 < \<bar>x\<bar>" by simp
  have "\<lfloor>log 2 \<bar>x\<bar>\<rfloor> = binade x" by (simp add: binade_def binade_pos_log [OF p])
  then have "2 powr (of_int (binade x)) \<le> \<bar>x\<bar> \<and> \<bar>x\<bar> < 2 powr (of_int (binade x + 1))"
    using floor_log_eq_powr_iff [of "\<bar>x\<bar>" 2 "binade x"] p by simp
  then show "2 powi binade x \<le> \<bar>x\<bar>" and "\<bar>x\<bar> < 2 powi (binade x + 1)"
    by (simp_all add: powr_powi)
qed

lemma binade_eqI:
  assumes "2 powi e \<le> \<bar>x\<bar>" and "\<bar>x\<bar> < 2 powi (e + 1)"
  shows "binade x = e"
proof -
  have p: "0 < \<bar>x\<bar>" using assms(1) zero_less_power_int [of "2::real" e] by linarith
  have "2 powr (of_int e) \<le> \<bar>x\<bar> \<and> \<bar>x\<bar> < 2 powr (of_int (e + 1))"
    using assms by (simp add: powr_powi)
  then have "\<lfloor>log 2 \<bar>x\<bar>\<rfloor> = e"
    using floor_log_eq_powr_iff [of "\<bar>x\<bar>" 2 e] p by simp
  then show ?thesis by (simp add: binade_def binade_pos_log [OF p])
qed

lemma round_half_even_error: "\<bar>of_int (round_half_even y) - y\<bar> \<le> 1 / 2"
  unfolding round_half_even_def Let_def by (auto simp: abs_if) linarith+

lemma round_half_even_mono: "y \<le> z \<Longrightarrow> round_half_even y \<le> round_half_even z"
proof -
  assume yz: "y \<le> z"
  then have f: "\<lfloor>y\<rfloor> \<le> \<lfloor>z\<rfloor>" by (rule floor_mono)
  show ?thesis
  proof (cases "\<lfloor>y\<rfloor> = \<lfloor>z\<rfloor>")
    case True
    with yz show ?thesis unfolding round_half_even_def Let_def by auto
  next
    case False
    with f have "\<lfloor>y\<rfloor> + 1 \<le> \<lfloor>z\<rfloor>" by simp
    moreover have "round_half_even y \<le> \<lfloor>y\<rfloor> + 1" unfolding round_half_even_def Let_def by auto
    moreover have "\<lfloor>z\<rfloor> \<le> round_half_even z" unfolding round_half_even_def Let_def by auto
    ultimately show ?thesis by linarith
  qed
qed

lemma round_half_even_of_int: "round_half_even (of_int k) = k"
  by (simp add: round_half_even_def)

lemma powi_52: "(2::real) powi (b - 52) = 2 powi b / 2 ^ 52"
  by (simp add: power_int_diff)

lemma powi_Suc: "(2::real) powi (b + 1) = 2 * 2 powi b"
  by (simp add: power_int_add)

lemma fl_scaled_bounds:
  assumes "0 < x"
  shows "2 ^ 52 \<le> x / 2 powi (binade x - 52)" and "x / 2 powi (binade x - 52) < 2 ^ 53"
proof -
  from assms have n: "x \<noteq> 0" and a: "\<bar>x\<bar> = x" by simp_all
  have p: "(0::real) < 2 powi binade x" by simp
  from binade_bounds [OF n] have l: "2 powi binade x \<le> x" and u: "x < 2 * 2 powi binade x"
    by (simp_all add: a powi_Suc)
  define c where "c = x / 2 powi binade x"
  have e: "x / 2 powi (binade x - 52) = c * 2 ^ 52"
    by (simp add: powi_52 c_def)
  from l p have "1 \<le> c" by (simp add: pos_le_divide_eq c_def)
  then show "2 ^ 52 \<le> x / 2 powi (binade x - 52)" unfolding e by simp
  from u p have "c < 2" by (simp add: pos_divide_less_eq c_def)
  then show "x / 2 powi (binade x - 52) < 2 ^ 53" unfolding e by simp
qed

lemma fl_pos_bounds:
  assumes "0 < x"
  shows "2 powi binade x \<le> fl x" and "fl x \<le> 2 powi (binade x + 1)"
proof -
  let ?u = "(2::real) powi (binade x - 52)"
  let ?k = "round_half_even (x / ?u)"
  have u: "0 < ?u" by simp
  from assms have f: "fl x = of_int ?k * ?u" by (simp add: fl_def)
  have "round_half_even (of_int (2 ^ 52)) \<le> ?k"
    using fl_scaled_bounds(1) [OF assms] by (intro round_half_even_mono) simp
  then have k1: "2 ^ 52 \<le> ?k" by (simp only: round_half_even_of_int)
  have "?k \<le> round_half_even (of_int (2 ^ 53))"
    using fl_scaled_bounds(2) [OF assms] by (intro round_half_even_mono) simp
  then have k2: "?k \<le> 2 ^ 53" by (simp only: round_half_even_of_int)
  from k1 have "(2 ^ 52 :: real) \<le> of_int ?k" by (metis of_int_le_iff of_int_numeral of_int_power)
  then have "2 ^ 52 * ?u \<le> of_int ?k * ?u" using u by (simp only: mult_le_cancel_right_pos)
  then show "2 powi binade x \<le> fl x" unfolding f by (simp add: powi_52)
  from k2 have "of_int ?k \<le> (2 ^ 53 :: real)" by (metis of_int_le_iff of_int_numeral of_int_power)
  then have "of_int ?k * ?u \<le> 2 ^ 53 * ?u" using u by (simp only: mult_le_cancel_right_pos)
  then show "fl x \<le> 2 powi (binade x + 1)" unfolding f by (simp add: powi_52 powi_Suc)
qed

lemma fl_zero: "fl 0 = 0"
  by (simp add: fl_def)

lemma fl_nonneg: "0 \<le> x \<Longrightarrow> 0 \<le> fl x"
proof (cases "x = 0")
  case False
  assume "0 \<le> x"
  with False have p: "0 < x" by simp
  have "(0::real) < 2 powi binade x" by simp
  with fl_pos_bounds(1) [OF p] show ?thesis by linarith
qed (simp add: fl_zero)

lemma binade_mono:
  assumes "0 < x" "x \<le> y"
  shows "binade x \<le> binade y"
proof (rule ccontr)
  assume "\<not> binade x \<le> binade y"
  then have "binade y + 1 \<le> binade x" by simp
  then have "(2::real) powi (binade y + 1) \<le> 2 powi binade x"
    by (intro power_int_increasing) simp_all
  moreover from assms have "y \<noteq> 0" "x \<noteq> 0" "\<bar>x\<bar> = x" "\<bar>y\<bar> = y" by simp_all
  ultimately show False
    using binade_bounds(1) [of x] binade_bounds(2) [of y] assms by simp
qed

lemma fl_mono:
  assumes "0 \<le> x" "x \<le> y"
  shows "fl x \<le> fl y"
proof (cases "x = 0")
  case True
  with assms fl_nonneg [of y] show ?thesis by (simp add: fl_zero)
next
  case False
  with assms have x: "0 < x" and y: "0 < y" by simp_all
  show ?thesis
  proof (cases "binade x = binade y")
    case True
    let ?u = "(2::real) powi (binade y - 52)"
    have u: "0 < ?u" by simp
    from assms(2) u have "x / ?u \<le> y / ?u" by (simp add: divide_right_mono)
    then have "round_half_even (x / ?u) \<le> round_half_even (y / ?u)" by (rule round_half_even_mono)
    then have "real_of_int (round_half_even (x / ?u)) \<le> real_of_int (round_half_even (y / ?u))" by simp
    then have "real_of_int (round_half_even (x / ?u)) * ?u \<le> real_of_int (round_half_even (y / ?u)) * ?u"
      using u by (simp only: mult_le_cancel_right_pos)
    then show ?thesis using x y True by (simp add: fl_def)
  next
    case False
    with binade_mono [OF x assms(2)] have "binade x + 1 \<le> binade y" by simp
    then have "(2::real) powi (binade x + 1) \<le> 2 powi binade y"
      by (intro power_int_increasing) simp_all
    with fl_pos_bounds(2) [OF x] fl_pos_bounds(1) [OF y] show ?thesis by linarith
  qed
qed

lemma fl_error: "\<bar>fl x - x\<bar> \<le> \<bar>x\<bar> / 2 ^ 53"
proof (cases "x = 0")
  case True
  then show ?thesis by (simp add: fl_zero)
next
  case False
  let ?u = "(2::real) powi (binade x - 52)"
  let ?k = "round_half_even (x / ?u)"
  have u: "0 < ?u" by simp
  from False have f: "fl x = of_int ?k * ?u" by (simp add: fl_def)
  have "fl x - x = (of_int ?k - x / ?u) * ?u" unfolding f using u by (simp add: algebra_simps)
  then have "\<bar>fl x - x\<bar> = \<bar>of_int ?k - x / ?u\<bar> * ?u" using u by (simp add: abs_mult)
  also have "\<dots> \<le> 1 / 2 * ?u"
    using round_half_even_error [of "x / ?u"] u by (simp only: mult_le_cancel_right_pos)
  also have "\<dots> = 2 powi binade x / 2 ^ 53" by (simp add: powi_52)
  also have "\<dots> \<le> \<bar>x\<bar> / 2 ^ 53" using binade_bounds(1) [OF False] by (simp add: divide_right_mono)
  finally show ?thesis .
qed

lemma fl_upper: "0 \<le> x \<Longrightarrow> fl x \<le> x * (1 + 1 / 2 ^ 53)"
  using fl_error [of x] by (simp add: algebra_simps abs_if split: if_splits)

lemma fl_lower: "0 \<le> x \<Longrightarrow> x * (1 - 1 / 2 ^ 53) \<le> fl x"
  using fl_error [of x] by (simp add: algebra_simps abs_if split: if_splits)

lemma fl_eval:
  assumes "2 powi e \<le> \<bar>x\<bar>" and "\<bar>x\<bar> < 2 powi (e + 1)"
    and "round_half_even (x / 2 powi (e - 52)) = k"
  shows "fl x = of_int k * 2 powi (e - 52)"
proof -
  have b: "binade x = e" by (rule binade_eqI [OF assms(1,2)])
  have "0 < \<bar>x\<bar>" using assms(1) zero_less_power_int [of "2::real" e] by linarith
  then have "x \<noteq> 0" by auto
  then show ?thesis using assms(3) by (simp add: fl_def b)
qed

section \<open>Properties of the codec\<close>

lemma of_char_less_256: "(of_char c :: nat) < 256"
  by (cases c) simp

lemma b64_index_char: "n < 64 \<Longrightarrow> b64_index (b64_char n) = Some n"
  unfolding b64_index_def b64_char_def Let_def
  by (auto simp add: of_char_of) 

lemma b64_char_not_pad: "n < 64 \<Longrightarrow> b64_char n \<noteq> CHR ''=''"
proof
  assume n: "n < 64" and eq: "b64_char n = CHR ''=''"
  from eq have "(of_char (b64_char n) :: nat) = of_char (CHR ''='')" by simp
  with n show False unfolding b64_char_def by (auto simp add: of_char_of split: if_splits)
qed

lemma b64_char_not_ws: "n < 64 \<Longrightarrow> \<not> is_ascii_whitespace (b64_char n)"
  unfolding b64_char_def is_ascii_whitespace_def by (auto simp add: of_char_of)

lemma sextet_arith:
  fixes x y z :: nat
  assumes "x < 256" "y < 256" "z < 256"
  shows "x div 4 < 64" "x mod 4 * 16 + y div 16 < 64" "y mod 16 * 4 + z div 64 < 64"
    "z mod 64 < 64" "y mod 16 * 4 < 64" "x mod 4 * 16 < 64"
    "x div 4 * 4 + (x mod 4 * 16 + y div 16) div 16 = x"
    "(x mod 4 * 16 + y div 16) mod 16 * 16 + (y mod 16 * 4 + z div 64) div 4 = y"
    "(y mod 16 * 4 + z div 64) mod 4 * 64 + z mod 64 = z"
    "(x mod 4 * 16 + y div 16) mod 16 * 16 + (y mod 16 * 4) div 4 = y"
    "x div 4 * 4 + (x mod 4 * 16) div 16 = x"
  using assms by simp_all

lemma sextets_bound: "n \<in> set (sextets s) \<Longrightarrow> n < 64"
proof (induction s arbitrary: n rule: sextets.induct)
  case (1 a b c rest)
  note b = sextet_arith(1-6) [OF of_char_less_256 [of a] of_char_less_256 [of b] of_char_less_256 [of c]]
  from 1 b show ?case unfolding sextets.simps Let_def by auto
next
  case (2 a b)
  note b = sextet_arith(1-6) [OF of_char_less_256 [of a] of_char_less_256 [of b] of_char_less_256 [of b]]
  from 2 b show ?case unfolding sextets.simps Let_def by auto
next
  case (3 a)
  note b = sextet_arith(1-6) [OF of_char_less_256 [of a] of_char_less_256 [of a] of_char_less_256 [of a]]
  from 3 b show ?case unfolding sextets.simps Let_def by auto
qed simp

lemma unsextets_sextets: "unsextets (sextets s) = s"
proof (induction s rule: sextets.induct)
  case (1 a b c rest)
  note e = sextet_arith(7-9) [OF of_char_less_256 [of a] of_char_less_256 [of b] of_char_less_256 [of c]]
  show ?case unfolding sextets.simps Let_def append_Cons append_Nil unsextets.simps e 1
    by simp
next
  case (2 a b)
  note e = sextet_arith(7,10) [OF of_char_less_256 [of a] of_char_less_256 [of b] of_char_less_256 [of b]]
  show ?case unfolding sextets.simps Let_def unsextets.simps e by simp
next
  case (3 a)
  note e = sextet_arith(11) [OF of_char_less_256 [of a] of_char_less_256 [of a] of_char_less_256 [of a]]
  show ?case unfolding sextets.simps Let_def unsextets.simps e by simp
qed simp

lemma length_sextets:
  "length (sextets s) = 4 * (length s div 3) + (if length s mod 3 = 0 then 0 else length s mod 3 + 1)"
proof (induction s rule: sextets.induct)
  case (1 a b c rest)
  have l: "length (a # b # c # rest) = length rest + 3" by simp
  have s: "length (sextets (a # b # c # rest)) = 4 + length (sextets rest)"
    by (simp add: Let_def)
  show ?case unfolding l s 1 by simp
qed (simp_all add: Let_def)

lemma strip_padding_append:
  assumes "k \<le> 2" and "CHR ''='' \<notin> set xs"
  shows "strip_padding (xs @ replicate k (CHR ''='')) = xs"
proof -
  have nl: "xs \<noteq> [] \<Longrightarrow> last xs \<noteq> CHR ''=''" using assms(2) last_in_set by metis
  from assms(1) consider "k = 0" | "k = 1" | "k = 2" by linarith
  then show ?thesis
  proof cases
    case 1 then show ?thesis using nl by (auto simp: strip_padding_def)
  next
    case 2 then show ?thesis using nl by (auto simp: strip_padding_def Let_def)
  next
    case 3
    have "replicate k (CHR ''='') = [CHR ''='', CHR ''='']" using 3 by (simp add: numeral_2_eq_2)
    then show ?thesis using nl by (auto simp: strip_padding_def Let_def butlast_append)
  qed
qed

lemma those_map_index: "(\<And>n. n \<in> set ns \<Longrightarrow> n < 64) \<Longrightarrow> those (map b64_index (map b64_char ns)) = Some ns"
  by (induction ns) (simp_all add: b64_index_char)

lemma length_btoa_mod4: "length (btoa s) mod 4 = 0"
proof -
  have "length s mod 3 = 0 \<or> length s mod 3 = 1 \<or> length s mod 3 = 2" by linarith
  then show ?thesis unfolding btoa_def by (auto simp: length_sextets)
qed

lemma length_sextets_mod4: "length (sextets s) mod 4 \<noteq> 1"
proof -
  have "length s mod 3 = 0 \<or> length s mod 3 = 1 \<or> length s mod 3 = 2" by linarith
  then show ?thesis by (auto simp: length_sextets)
qed

lemma atob_btoa: "atob (btoa s) = Inr s"
proof -
  let ?body = "map b64_char (sextets s)"
  let ?k = "(3 - length s mod 3) mod 3"
  have pad_ws: "\<not> is_ascii_whitespace (CHR ''='')" by (simp add: is_ascii_whitespace_def)
  have f: "filter (\<lambda>c. \<not> is_ascii_whitespace c) (btoa s) = btoa s"
    unfolding btoa_def using pad_ws by (auto simp: filter_id_conv dest: sextets_bound b64_char_not_ws)
  have nopad: "CHR ''='' \<notin> set ?body"
    using b64_char_not_pad sextets_bound by fastforce
  have k: "?k \<le> 2" by linarith
  have st: "strip_padding (btoa s) = ?body"
    unfolding btoa_def by (rule strip_padding_append [OF k nopad])
  have th: "those (map b64_index ?body) = Some (sextets s)"
    by (rule those_map_index) (rule sextets_bound)
  show ?thesis
    unfolding atob_def f Let_def length_btoa_mod4
    using th length_sextets_mod4 [of s]
    by (simp add: st unsextets_sextets del: map_map)
qed

lemma bytes_int16_bytes: "bytes_int16 (ucast w) (ucast (drop_bit 8 w)) = w"
  unfolding bytes_int16_def
  by (rule bit_word_eqI) (auto simp: bit_simps)

lemma charCodeAt_fromCharCode: "charCodeAt (fromCharCode b) = b"
proof -
  have "unat b < 256" using unsigned_less [of b, where 'a = nat] by simp
  then show ?thesis unfolding charCodeAt_def fromCharCode_def by (simp add: of_char_of)
qed

lemma Int16Array_view_bytes: "Int16Array_view (concat (map int16_bytes ws)) = ws"
  by (induction ws) (simp_all add: int16_bytes_def bytes_int16_bytes)

lemma length_concat_int16_bytes: "length (concat (map (\<lambda>x. int16_bytes (f x)) xs)) = 2 * length xs"
  by (induction xs) (simp_all add: int16_bytes_def)

lemma decode_encode:
  "base64ToFloat32Array (float32ArrayToBase64 data) =
     Inr (map (\<lambda>x. Finite (real_of_int (sint (pcm16 x)) / 32768)) data)"
proof -
  let ?bytes = "concat (map (\<lambda>x. int16_bytes (pcm16 x)) data)"
  have b: "map charCodeAt (map fromCharCode ?bytes) = ?bytes"
    by (simp add: charCodeAt_fromCharCode comp_def)
  have c: "?bytes = concat (map int16_bytes (map pcm16 data))" by (simp add: comp_def)
  have v: "Int16Array_view ?bytes = map pcm16 data"
    unfolding c by (rule Int16Array_view_bytes)
  have l: "length ?bytes = 2 * length data"
    by (rule length_concat_int16_bytes)
  show ?thesis
    unfolding base64ToFloat32Array_def float32ArrayToBase64_def atob_btoa sum.case Let_def b v l
    by (simp add: comp_def)
qed

lemma clamp_number: "Math_max (Finite (- 1)) (Math_min (Finite 1) (Finite r)) = Finite (clamp r)"
  by (auto simp: Math_max_def Math_min_def clamp_def)

lemma clamp_range: "- 1 \<le> clamp r" "clamp r \<le> 1"
  by (auto simp: clamp_def)

lemma spec_int16_range: "- 32768 \<le> spec_int16 r" "spec_int16 r \<le> 32767"
proof -
  note c = clamp_range [of r]
  show "- 32768 \<le> spec_int16 r"
  proof (cases "clamp r < 0")
    case True
    have "- 32768 \<le> clamp r * 32768" using c by simp
    then have "- 32768 \<le> \<lceil>clamp r * 32768\<rceil>" by (simp add: le_ceiling_iff)
    then show ?thesis using True by (simp add: spec_int16_def trunc_def mult_less_0_iff)
  next
    case False
    then have "0 \<le> clamp r * 32767" by simp
    then have "0 \<le> \<lfloor>clamp r * 32767\<rfloor>" by simp
    then show ?thesis using False by (simp add: spec_int16_def trunc_def)
  qed
  show "spec_int16 r \<le> 32767"
  proof (cases "clamp r < 0")
    case True
    then have "clamp r * 32768 \<le> 0" by simp
    then have "\<lceil>clamp r * 32768\<rceil> \<le> 0" by (simp add: ceiling_le_iff)
    then show ?thesis using True by (simp add: spec_int16_def trunc_def mult_less_0_iff)
  next
    case False
    have "clamp r * 32767 \<le> 32767" using c by simp
    then have "\<lfloor>clamp r * 32767\<rfloor> \<le> 32767" by (simp add: floor_le_iff)
    then show ?thesis using False by (simp add: spec_int16_def trunc_def)
  qed
qed

lemma sint_word16_of_int: "- 32768 \<le> k \<Longrightarrow> k \<le> 32767 \<Longrightarrow> sint (word_of_int k :: 16 word) = k"
  by (simp add: sint_sbintrunc' signed_take_bit_int_eq_self)

lemma pcm16_Finite: "sint (pcm16 (Finite r)) = spec_int16 r"
proof -
  have "pcm16 (Finite r) = word_of_int (spec_int16 r)"
    unfolding pcm16_def clamp_number Let_def spec_int16_def by simp
  then show ?thesis using spec_int16_range [of r] by (simp add: sint_word16_of_int)
qed

lemma pcm16_special: "sint (pcm16 PosInf) = 32767" "sint (pcm16 NegInf) = - 32768" "sint (pcm16 NaN) = 0"
  by (simp_all add: pcm16_def Math_max_def Math_min_def trunc_def)

lemma sint16_range: "- 32768 \<le> sint (w :: 16 word)" "sint (w :: 16 word) \<le> 32767"
  using sint_ge [of w] sint_lt [of w] by simp_all

lemma error_nonneg:
  assumes "0 \<le> r" "r \<le> 1"
  shows "0 \<le> r - real_of_int (spec_int16 r) / 32768" "r - real_of_int (spec_int16 r) / 32768 < 2 / 32768"
proof -
  have c: "clamp r = r" using assms by (simp add: clamp_def)
  have s: "spec_int16 r = \<lfloor>r * 32767\<rfloor>" using assms by (simp add: spec_int16_def c trunc_def)
  have l: "r * 32767 - 1 < real_of_int \<lfloor>r * 32767\<rfloor>" by linarith
  have u: "real_of_int \<lfloor>r * 32767\<rfloor> \<le> r * 32767" by linarith
  have "real_of_int \<lfloor>r * 32767\<rfloor> \<le> r * 32768" using u assms by linarith
  then show "0 \<le> r - real_of_int (spec_int16 r) / 32768" unfolding s by simp
  show "r - real_of_int (spec_int16 r) / 32768 < 2 / 32768" unfolding s using l assms by (simp add: field_simps)
qed

lemma error_neg:
  assumes "- 1 \<le> r" "r < 0"
  shows "0 \<le> real_of_int (spec_int16 r) / 32768 - r" "real_of_int (spec_int16 r) / 32768 - r < 1 / 32768"
proof -
  have c: "clamp r = r" using assms by (simp add: clamp_def)
  have n: "\<not> 0 \<le> r * 32768" using assms by (simp add: mult_less_0_iff)
  have s: "spec_int16 r = \<lceil>r * 32768\<rceil>" using assms n by (simp add: spec_int16_def c trunc_def)
  have l: "real_of_int \<lceil>r * 32768\<rceil> < r * 32768 + 1" by linarith
  have u: "r * 32768 \<le> real_of_int \<lceil>r * 32768\<rceil>" by linarith
  show "0 \<le> real_of_int (spec_int16 r) / 32768 - r" unfolding s using u by (simp add: field_simps)
  show "real_of_int (spec_int16 r) / 32768 - r < 1 / 32768" unfolding s using l by (simp add: field_simps)
qed

lemma spec_int16_cex: "spec_int16 (65535 / 65536) = 32766"
  by (simp add: spec_int16_def clamp_def trunc_def)

lemma error_nonneg_tight:
  assumes "0 \<le> r" "r \<le> 1"
  shows "r - real_of_int (spec_int16 r) / 32768 < (1 + r) / 32768"
proof -
  have c: "clamp r = r" using assms by (simp add: clamp_def)
  have s: "spec_int16 r = \<lfloor>r * 32767\<rfloor>" using assms by (simp add: spec_int16_def c trunc_def)
  have l: "r * 32767 - 1 < real_of_int \<lfloor>r * 32767\<rfloor>" by linarith
  show ?thesis unfolding s using l by (simp add: field_simps)
qed

lemma pcm16_spec: "sint (pcm16 x) = stored_int16_spec x"
  by (cases x) (simp_all add: pcm16_Finite pcm16_special spec_int16_def clamp_def trunc_def)

lemma of_char_fromCharCode: "(of_char (fromCharCode b) :: nat) = unat b"
proof -
  have "unat b < 256" using unsigned_less [of b, where 'a = nat] by simp
  then show ?thesis unfolding fromCharCode_def by (simp add: of_char_of)
qed

lemma int_byte_arith:
  fixes k :: int
  shows "(k mod 65536) mod 256 = k mod 256" "((k mod 65536) div 256) mod 256 = (k div 256) mod 256"
proof -
  show "(k mod 65536) mod 256 = k mod 256"
    by (rule mod_mod_cancel) simp
  have "drop_bit 8 (take_bit 16 k) = take_bit (16 - 8) (drop_bit 8 k)"
    by (rule drop_bit_take_bit)
  then have "(k mod 65536) div 256 = (k div 256) mod 256"
    by (simp add: take_bit_eq_mod drop_bit_eq_div)
  then show "((k mod 65536) div 256) mod 256 = (k div 256) mod 256"
    by simp
qed

lemma uint_low_byte: "uint (ucast (w :: 16 word) :: 8 word) = sint w mod 256"
proof -
  have "uint (ucast w :: 8 word) = uint w mod 256"
    by (simp add: unsigned_ucast_eq take_bit_eq_mod)
  also have "uint w = sint w mod 65536"
    by (simp add: uint_sint take_bit_eq_mod)
  finally show ?thesis by (simp only: int_byte_arith)
qed

lemma uint_drop_bit_8: "uint (drop_bit 8 (w :: 16 word)) = uint w div 256"
proof -
  have b: "uint w mod 65536 = uint w"
    using unsigned_less [of w, where 'a = int] by simp
  have "uint (drop_bit 8 w) = drop_bit 8 (take_bit 16 (uint w))"
    by (simp only: unsigned_drop_bit_eq) simp
  then show ?thesis by (simp only: drop_bit_eq_div take_bit_eq_mod) (simp add: b)
qed

lemma uint_ucast_8: "uint (ucast (v :: 16 word) :: 8 word) = uint v mod 256"
  by (simp add: unsigned_ucast_eq take_bit_eq_mod)

lemma uint_high_byte: "uint (ucast (drop_bit 8 (w :: 16 word)) :: 8 word) = (sint w div 256) mod 256"
proof -
  have "uint (ucast (drop_bit 8 w) :: 8 word) = uint (drop_bit 8 w) mod 256"
    by (rule uint_ucast_8)
  also have "\<dots> = (uint w div 256) mod 256"
    by (simp only: uint_drop_bit_8)
  also have "\<dots> = ((sint w mod 65536) div 256) mod 256"
    by (simp only: uint_sint take_bit_eq_mod) simp
  finally show ?thesis by (simp only: int_byte_arith)
qed

lemma int16_bytes_le: "map unat (int16_bytes w) = little_endian_spec (sint w)"
proof -
  have a: "unat (ucast w :: 8 word) = nat (sint w mod 256)"
    by (simp only: unat_eq_nat_uint uint_low_byte)
  have b: "unat (ucast (drop_bit 8 w) :: 8 word) = nat ((sint w div 256) mod 256)"
    by (simp only: unat_eq_nat_uint uint_high_byte)
  show ?thesis
    unfolding int16_bytes_def little_endian_spec_def by (simp only: list.map a b)
qed

lemma map_of_char_fromCharCode: "map (\<lambda>c. of_char c :: nat) (map fromCharCode bs) = map unat bs"
  by (simp add: of_char_fromCharCode)

lemma map_concat_le:
  "map unat (concat (map (\<lambda>x. int16_bytes (pcm16 x)) data)) =
     concat (map (\<lambda>x. little_endian_spec (stored_int16_spec x)) data)"
  by (simp add: map_concat comp_def int16_bytes_le pcm16_spec)
section \<open>Claims about the codec\<close>

text \<open>
  Claim C8 (encode definition). For every input array, the bytes that
  \<^verbatim>\<open>float32ArrayToBase64\<close> hands to base64 are recovered from its output by the base64
  decoder; they are, two per sample and low byte first, the 16-bit integer that the
  specification describes: the sample clamped to \<open>[-1, 1]\<close>, times 32768 when the clamped
  value is negative and times 32767 otherwise, truncated. The integer stored for each
  sample, read as a signed 16-bit value, is that integer (no wrap-around occurs).
\<close>

theorem encode_definition:
  "atob (float32ArrayToBase64 x) =
     Inr (map fromCharCode (concat (map (\<lambda>s. int16_bytes (pcm16 s)) x))) \<and>
   map (\<lambda>c. of_char c :: nat) (map fromCharCode (concat (map (\<lambda>s. int16_bytes (pcm16 s)) x))) =
     concat (map (\<lambda>s. little_endian_spec (stored_int16_spec s)) x) \<and>
   map (\<lambda>s. sint (pcm16 s)) x = map stored_int16_spec x"
  unfolding float32ArrayToBase64_def atob_btoa map_of_char_fromCharCode map_concat_le
  by (simp add: pcm16_spec)

theorem encode_definition_witness:
  "map (\<lambda>s. sint (pcm16 s)) [Finite (1 / 2), Finite (- 1 / 4), Finite 3, NaN] = [16383, - 8192, 32767, 0] \<and>
   map (\<lambda>c. of_char c :: nat)
     (map fromCharCode (concat (map (\<lambda>s. int16_bytes (pcm16 s)) [Finite (1 / 2), Finite (- 1 / 4), Finite 3, NaN])))
     = [255, 63, 0, 224, 255, 127, 0, 0]"
  using encode_definition [of "[Finite (1 / 2), Finite (- 1 / 4), Finite 3, NaN]"]
  by (simp add: spec_int16_def clamp_def trunc_def little_endian_spec_def)

text \<open>
  Claim C10 (encoder output is always decodable). For every array \<open>f\<close>, the base64 text
  produced by \<^verbatim>\<open>float32ArrayToBase64\<close> decodes to exactly \<open>2 * length f\<close> bytes, an even
  number, so \<^verbatim>\<open>base64ToFloat32Array\<close> does not fail on it: it returns an array of the
  length of \<open>f\<close> whose samples all lie in \<open>[-1, 32767/32768]\<close>.
\<close>

theorem encoder_output_decodable:
  "\<exists>bin ys. atob (float32ArrayToBase64 f) = Inr bin \<and> length bin = 2 * length f \<and>
     even (length bin) \<and>
     base64ToFloat32Array (float32ArrayToBase64 f) = Inr ys \<and> length ys = length f \<and>
     list_all in_pcm_range ys"
proof -
  let ?bin = "map fromCharCode (concat (map (\<lambda>x. int16_bytes (pcm16 x)) f))"
  let ?ys = "map (\<lambda>x. Finite (real_of_int (sint (pcm16 x)) / 32768)) f"
  have a: "atob (float32ArrayToBase64 f) = Inr ?bin"
    unfolding float32ArrayToBase64_def by (rule atob_btoa)
  have l: "length ?bin = 2 * length f"
    by (simp add: length_concat_int16_bytes)
  have r: "in_pcm_range (Finite (real_of_int (sint w) / 32768))" for w :: "16 word"
    using sint16_range [of w] by (simp add: in_pcm_range_def del: of_int_sint)
  have "list_all in_pcm_range ?ys"
    by (simp add: list_all_iff r del: of_int_sint)
  with a l decode_encode [of f] show ?thesis by auto
qed

theorem encoder_output_decodable_witness:
  "\<exists>bin ys. atob (float32ArrayToBase64 [Finite (1 / 2), NaN, NegInf]) = Inr bin \<and>
     length bin = 2 * length [Finite (1 / 2), NaN, NegInf] \<and> even (length bin) \<and>
     base64ToFloat32Array (float32ArrayToBase64 [Finite (1 / 2), NaN, NegInf]) = Inr ys \<and>
     length ys = length [Finite (1 / 2), NaN, NegInf] \<and> list_all in_pcm_range ys"
  by (rule encoder_output_decodable)

text \<open>
  Claim C1 (codec round trip), as stated, fails: the sample \<open>65535/65536\<close>, a float in
  \<open>[-1, 1]\<close>, is stored as 32766 and decoded as \<open>32766/32768\<close>, which is \<open>1.5/32768\<close>
  away from it.
\<close>

theorem roundtrip_error_counterexample:
  "- 1 \<le> (65535 / 65536 :: real) \<and> (65535 / 65536 :: real) \<le> 1 \<and>
   base64ToFloat32Array (float32ArrayToBase64 [Finite (65535 / 65536)]) = Inr [Finite (32766 / 32768)] \<and>
   \<not> \<bar>32766 / 32768 - 65535 / 65536 :: real\<bar> \<le> 1 / 32768"
  by (simp add: decode_encode pcm16_Finite spec_int16_cex del: of_int_sint)

text \<open>
  Claim C1, amended. For every frame whose samples lie in \<open>[-1, 1]\<close>, decoding the encoded
  frame succeeds with an array of the same length whose \<open>i\<close>-th sample differs from the
  \<open>i\<close>-th source sample \<open>s\<close> by less than \<open>(1 + max 0 s) / 32768\<close>: by less than \<open>2/32768\<close>
  in every case, and by less than \<open>1/32768\<close> when \<open>s\<close> is negative.
\<close>

theorem roundtrip_error_bound:
  assumes "\<forall>r \<in> set rs. - 1 \<le> r \<and> r \<le> 1"
  shows "\<exists>rs'. base64ToFloat32Array (float32ArrayToBase64 (map Finite rs)) = Inr (map Finite rs') \<and>
           length rs' = length rs \<and>
           (\<forall>i < length rs. \<bar>rs' ! i - rs ! i\<bar> < (1 + max 0 (rs ! i)) / 32768 \<and>
                              \<bar>rs' ! i - rs ! i\<bar> < 2 / 32768 \<and>
                              (rs ! i < 0 \<longrightarrow> \<bar>rs' ! i - rs ! i\<bar> < 1 / 32768))"
proof -
  let ?rs' = "map (\<lambda>r. real_of_int (spec_int16 r) / 32768) rs"
  have d: "base64ToFloat32Array (float32ArrayToBase64 (map Finite rs)) = Inr (map Finite ?rs')"
    by (simp add: decode_encode pcm16_Finite comp_def del: of_int_sint)
  have e: "\<bar>?rs' ! i - rs ! i\<bar> < (1 + max 0 (rs ! i)) / 32768 \<and>
           \<bar>?rs' ! i - rs ! i\<bar> < 2 / 32768 \<and>
           (rs ! i < 0 \<longrightarrow> \<bar>?rs' ! i - rs ! i\<bar> < 1 / 32768)" if i: "i < length rs" for i
  proof -
    let ?r = "rs ! i"
    from i assms have b: "- 1 \<le> ?r" "?r \<le> 1" by auto
    have n: "?rs' ! i = real_of_int (spec_int16 ?r) / 32768" using i by simp
    show ?thesis
    proof (cases "?r < 0")
      case True
      with error_neg [of ?r] b show ?thesis unfolding n by (simp add: abs_if)
    next
      case False
      then have nn: "0 \<le> ?r" by simp
      from error_nonneg_tight [OF nn b(2)] error_nonneg [OF nn b(2)] nn show ?thesis
        unfolding n by (simp add: abs_if)
    qed
  qed
  from d e show ?thesis by (intro exI [of _ ?rs']) simp
qed

theorem roundtrip_error_bound_witness:
  "(- 1 \<le> (65535 / 65536 :: real) \<and> (65535 / 65536 :: real) \<le> 1 \<and>
    - 1 \<le> (- 1 / 3 :: real) \<and> (- 1 / 3 :: real) \<le> 1) \<and>
   (\<exists>rs'. base64ToFloat32Array (float32ArrayToBase64 (map Finite [65535 / 65536, - 1 / 3])) = Inr (map Finite rs') \<and>
           length rs' = 2 \<and>
           \<bar>rs' ! 0 - 65535 / 65536\<bar> < 2 / 32768 \<and> \<bar>rs' ! 1 - (- 1 / 3)\<bar> < 1 / 32768)"
proof -
  let ?rs = "[65535 / 65536, - 1 / 3 :: real]"
  have h: "\<forall>r \<in> set ?rs. - 1 \<le> r \<and> r \<le> 1" by simp
  from roundtrip_error_bound [OF h] obtain rs' where
    d: "base64ToFloat32Array (float32ArrayToBase64 (map Finite ?rs)) = Inr (map Finite rs')"
    and l: "length rs' = length ?rs"
    and q: "\<forall>i < length ?rs. \<bar>rs' ! i - ?rs ! i\<bar> < (1 + max 0 (?rs ! i)) / 32768 \<and>
        \<bar>rs' ! i - ?rs ! i\<bar> < 2 / 32768 \<and>
        (?rs ! i < 0 \<longrightarrow> \<bar>rs' ! i - ?rs ! i\<bar> < 1 / 32768)"
    by blast
  have q0: "\<bar>rs' ! 0 - 65535 / 65536\<bar> < 2 / 32768"
    using q [rule_format, of 0] by simp
  have q1: "\<bar>rs' ! 1 - (- 1 / 3)\<bar> < 1 / 32768"
    using q [rule_format, of 1] by simp
  from l have l2: "length rs' = 2" by simp
  from d l2 q0 q1 show ?thesis by (intro conjI exI [of _ rs']) simp_all
qed
section \<open>Properties of the session\<close>

lemma transcript_line_nonempty: "transcript_line t \<noteq> []"
  by (cases "role t") (simp_all add: transcript_line_def role_label_def)

lemma join_nonempty: "x \<noteq> [] \<Longrightarrow> join sep (x # xs) \<noteq> []"
  by (cases xs) simp_all

lemma joined_nonempty: "entries \<noteq> [] \<Longrightarrow> join sep (map transcript_line entries) \<noteq> []"
  by (cases entries) (simp_all add: join_nonempty transcript_line_nonempty)

lemma finalTranscript_cases:
  "finalTranscript entries raw =
     (if entries \<noteq> [] then join [CHR 0x0A, CHR 0x0A] (map transcript_line entries)
      else if raw \<noteq> [] then raw else ''No transcript available.'')"
  by (simp add: finalTranscript_def Let_def joined_nonempty)

lemma completed_handleEndInterview:
  "completed (handleEndInterview entries s) =
     (if isEndedRef s then completed s else completed s @ [finalTranscript entries (transcriptTextRef s)])"
  by (simp add: handleEndInterview_def Let_def cleanupAudio_def)

lemma nas_snoc:
  "no_adjacent_same_role (xs @ [x]) \<longleftrightarrow>
     no_adjacent_same_role xs \<and> (xs = [] \<or> role (last xs) \<noteq> role x)"
proof (induction xs rule: no_adjacent_same_role.induct)
  case (1 a b rest)
  then show ?case by auto
qed simp_all

lemma nas_merge_fragment:
  assumes "no_adjacent_same_role prev"
  shows "no_adjacent_same_role (merge_fragment r t prev)"
proof (cases "prev \<noteq> [] \<and> role (last prev) = r")
  case True
  then have p: "prev = butlast prev @ [last prev]" by simp
  from assms p have "no_adjacent_same_role (butlast prev @ [last prev])" by simp
  then have "no_adjacent_same_role (butlast prev @ [(last prev)\<lparr>entry_text := entry_text (last prev) @ t\<rparr>])"
    unfolding nas_snoc by simp
  with True show ?thesis by (simp add: merge_fragment_def)
next
  case False
  with assms show ?thesis by (auto simp: merge_fragment_def nas_snoc)
qed

lemma transcript_schedule_buffer: "transcript (schedule_buffer now d s) = transcript s"
  by (simp add: schedule_buffer_def Let_def)

lemma transcript_play_audio: "play_audio now m s = Inr s1 \<Longrightarrow> transcript s1 = transcript s"
  by (auto simp: play_audio_def transcript_schedule_buffer split: option.splits if_splits sum.splits)

lemma nas_receive_fragment:
  "no_adjacent_same_role (transcript s) \<Longrightarrow> no_adjacent_same_role (transcript (receive_fragment r f s))"
  by (simp add: receive_fragment_def nas_merge_fragment split: option.splits)

lemma nas_onmessage:
  "no_adjacent_same_role (transcript s) \<Longrightarrow> no_adjacent_same_role (transcript (onmessage token now m s))"
  by (auto simp: onmessage_def nas_receive_fragment transcript_play_audio split: sum.splits)

lemma nas_handle_messages:
  "no_adjacent_same_role (transcript s) \<Longrightarrow> no_adjacent_same_role (transcript (handle_messages ms s))"
  unfolding handle_messages_def
  by (induction ms arbitrary: s) (auto simp: nas_onmessage)

lemma started_schedule_buffer:
  "started (schedule_buffer now d s) = started s @ [(max now (nextStartTimeRef s), d)]"
  by (simp add: schedule_buffer_def Let_def)














lemma fl_ratio_ge_1:
  assumes "1 < x"
  shows "1 \<le> fl x"
proof -
  from assms have p: "0 < x" by simp
  have "binade 1 \<le> binade x" using assms by (intro binade_mono) simp_all
  moreover have "binade 1 = 0" by (rule binade_eqI) simp_all
  ultimately have "0 \<le> binade x" by simp
  then have "(2::real) powi 0 \<le> 2 powi binade x" by (intro power_int_increasing) simp_all
  with fl_pos_bounds(1) [OF p] show ?thesis by simp
qed

lemma downsample_index:
  fixes r :: real
  assumes r: "1 \<le> r" and n: "n < 2 ^ 52" and i: "i < nat \<lfloor>fl (real n / r)\<rfloor>"
  shows "nat \<lfloor>fl (real i * r)\<rfloor> < n"
proof -
  define e :: real where "e = 1 / 2 ^ 53"
  have e: "0 < e" "e = 1 / 2 ^ 53" by (simp_all add: e_def)
  from i have "int i + 1 \<le> \<lfloor>fl (real n / r)\<rfloor>" by linarith
  then have q: "real i + 1 \<le> fl (real n / r)" by linarith
  have nr: "0 \<le> real n / r" using r by simp
  from fl_upper [OF nr] have "fl (real n / r) \<le> real n / r * (1 + e)" by (simp add: e_def)
  with q have "real i + 1 \<le> real n * (1 + e) / r" by simp
  with r have "(real i + 1) * r \<le> real n * (1 + e)" by (simp add: pos_le_divide_eq)
  then have "real i * r + r \<le> real n * (1 + e)" by (simp add: algebra_simps)
  with r have ir: "real i * r \<le> real n * (1 + e) - 1" by linarith
  have ir0: "0 \<le> real i * r" using r by simp
  from fl_upper [OF ir0] have "fl (real i * r) \<le> real i * r * (1 + e)" by (simp add: e_def)
  also have "\<dots> \<le> (real n * (1 + e) - 1) * (1 + e)"
    using ir e(1) by (intro mult_right_mono) simp_all
  also have "\<dots> = real n + (real n * (2 * e + e * e) - (1 + e))" by (simp add: algebra_simps)
  also have "\<dots> < real n"
  proof -
    from n have "real n < 2 ^ 52" by (metis of_nat_less_iff of_nat_numeral of_nat_power)
    then have "real n \<le> 2 ^ 52" by simp
    then have "real n * (2 * e + e * e) \<le> 2 ^ 52 * (2 * e + e * e)"
      using e(1) by (intro mult_right_mono) simp_all
    also have "\<dots> < 1 + e" by (simp add: e_def)
    finally show ?thesis by simp
  qed
  finally have "fl (real i * r) < real n" .
  then have "\<lfloor>fl (real i * r)\<rfloor> < int n" by linarith
  moreover have "0 \<le> \<lfloor>fl (real i * r)\<rfloor>" using fl_nonneg [OF ir0] by simp
  ultimately show ?thesis by linarith
qed

lemma fl_ratio: "fl (29 / 25) = 5224175567749775 / 4503599627370496"
proof -
  have "fl (29 / 25) = of_int 5224175567749775 * 2 powi (0 - 52)"
    by (rule fl_eval) (simp_all add: round_half_even_def)
  then show ?thesis by simp
qed

lemma fl_index_25: "\<lfloor>fl (25 * fl (29 / 25))\<rfloor> = 28"
proof -
  have "fl (25 * (5224175567749775 / 4503599627370496)) = of_int 8162774324609023 * 2 powi (4 - 52)"
    by (rule fl_eval) (simp_all add: round_half_even_def)
  also have "\<dots> = 8162774324609023 / 281474976710656" by simp
  finally have v: "fl (25 * (5224175567749775 / 4503599627370496)) = 8162774324609023 / 281474976710656" .
  show ?thesis unfolding fl_ratio v by simp
qed

lemma fl_length_32: "\<lfloor>fl (32 / fl (29 / 25))\<rfloor> = 27"
proof -
  have "fl (32 / (5224175567749775 / 4503599627370496)) = of_int 7764826943742235 * 2 powi (4 - 52)"
    by (rule fl_eval) (simp_all add: round_half_even_def)
  also have "\<dots> = 7764826943742235 / 281474976710656" by simp
  finally have v: "fl (32 / (5224175567749775 / 4503599627370496)) = 7764826943742235 / 281474976710656" .
  show ?thesis unfolding fl_ratio v by simp
qed

lemma fl_3: "fl 3 = 3"
proof -
  have "fl 3 = of_int 6755399441055744 * 2 powi (1 - 52)"
    by (rule fl_eval) (simp_all add: round_half_even_def)
  then show ?thesis by simp
qed

lemma fl_2: "fl 2 = 2"
proof -
  have "fl 2 = of_int 4503599627370496 * 2 powi (1 - 52)"
    by (rule fl_eval) (simp_all add: round_half_even_def)
  then show ?thesis by simp
qed

lemma float_sum_snoc: "float_sum (ds @ [d]) = fl (float_sum ds + d)"
  by (simp add: float_sum_def)

lemma cursor_before_append:
  "j \<le> length bs \<Longrightarrow> cursor_before (bs @ [e]) j = cursor_before bs j"
  by (cases j) (simp_all add: cursor_before_def nth_append)

lemma cursor_before_last: "cursor_before (bs @ [(a, d)]) (Suc (length bs)) = fl (a + d)"
  by (simp add: cursor_before_def)

lemma schedule_ok_Nil: "schedule_ok T [] 0"
  by (simp add: schedule_ok_def cursor_before_def float_sum_def)

lemma schedule_ok_snoc:
  assumes ok: "schedule_ok T bs c" and d: "0 \<le> d" and t: "t \<in> T"
  shows "schedule_ok T (bs @ [(max t c, d)]) (fl (max t c + d))"
proof -
  let ?n = "length bs"
  let ?s0 = "max t c"
  let ?bs' = "bs @ [(?s0, d)]"
  let ?F = "float_sum (map snd bs)"
  from ok have c: "c = cursor_before bs ?n" and c0: "0 \<le> c" and F0: "0 \<le> ?F" and Fc: "?F \<le> c"
    and gf: "(\<forall>k < ?n. fst (bs ! k) = cursor_before bs k) \<longrightarrow> c = ?F"
    and per: "\<And>j. j < ?n \<Longrightarrow>
        0 \<le> snd (bs ! j) \<and> 0 \<le> fst (bs ! j) \<and> cursor_before bs j \<le> fst (bs ! j) \<and>
        float_sum (map snd (take j bs)) \<le> fst (bs ! j) \<and>
        ((\<forall>k \<le> j. fst (bs ! k) = cursor_before bs k) \<longrightarrow>
           fst (bs ! j) = float_sum (map snd (take j bs))) \<and>
        (fst (bs ! j) = cursor_before bs j \<or> fst (bs ! j) \<in> T)"
    unfolding schedule_ok_def by blast+
  have s0: "c \<le> ?s0" "0 \<le> ?s0" using c0 by simp_all
  have old: "?bs' ! k = bs ! k" "cursor_before ?bs' k = cursor_before bs k" if "k < ?n" for k
    using that by (simp_all add: nth_append cursor_before_append)
  have cn: "cursor_before ?bs' ?n = c" using c by (simp add: cursor_before_append)
  have new: "?bs' ! ?n = (?s0, d)" by simp
  have F': "float_sum (map snd ?bs') = fl (?F + d)" by (simp add: float_sum_snoc)
  have g1: "fl (?s0 + d) = cursor_before ?bs' (length ?bs')"
    by (simp add: cursor_before_last)
  have g2: "0 \<le> fl (?s0 + d)" using s0 d by (intro fl_nonneg) simp
  have g3: "0 \<le> float_sum (map snd ?bs')" unfolding F' using F0 d by (intro fl_nonneg) simp
  have g4: "float_sum (map snd ?bs') \<le> fl (?s0 + d)"
    unfolding F' using F0 d Fc s0 by (intro fl_mono) simp_all
  have gfall: "c = ?F \<and> ?s0 = c" if h: "\<forall>k \<le> ?n. fst (?bs' ! k) = cursor_before ?bs' k"
  proof -
    have "\<forall>k < ?n. fst (bs ! k) = cursor_before bs k"
      using h old by (metis less_imp_le_nat)
    with gf have "c = ?F" by simp
    moreover from h have "fst (?bs' ! ?n) = cursor_before ?bs' ?n" by blast
    then have "?s0 = c" unfolding cn new by simp
    ultimately show ?thesis by simp
  qed
  have g5: "(\<forall>k < length ?bs'. fst (?bs' ! k) = cursor_before ?bs' k) \<longrightarrow>
      fl (?s0 + d) = float_sum (map snd ?bs')"
  proof
    assume "\<forall>k < length ?bs'. fst (?bs' ! k) = cursor_before ?bs' k"
    then have "\<forall>k \<le> ?n. fst (?bs' ! k) = cursor_before ?bs' k" by (simp add: less_Suc_eq_le)
    from gfall [OF this] have e1: "c = ?F" and e2: "?s0 = c" by blast+
    from e2 e1 have "?s0 = ?F" by (rule trans)
    then show "fl (?s0 + d) = float_sum (map snd ?bs')" unfolding F' by (simp only:)
  qed
  have g6: "0 \<le> snd (?bs' ! j) \<and> 0 \<le> fst (?bs' ! j) \<and> cursor_before ?bs' j \<le> fst (?bs' ! j) \<and>
        float_sum (map snd (take j ?bs')) \<le> fst (?bs' ! j) \<and>
        ((\<forall>k \<le> j. fst (?bs' ! k) = cursor_before ?bs' k) \<longrightarrow>
           fst (?bs' ! j) = float_sum (map snd (take j ?bs'))) \<and>
        (fst (?bs' ! j) = cursor_before ?bs' j \<or> fst (?bs' ! j) \<in> T)" if j: "j < length ?bs'" for j
  proof (cases "j < ?n")
    case True
    then have tk: "take j ?bs' = take j bs" by simp
    have inner: "(\<forall>k \<le> j. fst (?bs' ! k) = cursor_before ?bs' k) \<longleftrightarrow>
          (\<forall>k \<le> j. fst (bs ! k) = cursor_before bs k)"
      using True old by (metis le_less_trans)
    show ?thesis unfolding old [OF True] tk inner using per [OF True] by blast
  next
    case False
    with j have jn: "j = ?n" by simp
    have tk: "take ?n ?bs' = bs" by simp
    show ?thesis
      unfolding jn cn new tk fst_conv snd_conv
      using d s0 Fc gfall t by (auto simp: max_def)
  qed
  show ?thesis
    unfolding schedule_ok_def using g1 g2 g3 g4 g5 g6 by blast
qed

lemma schedule_ok_mono: "schedule_ok T bs c \<Longrightarrow> T \<subseteq> T' \<Longrightarrow> schedule_ok T' bs c"
  unfolding schedule_ok_def by blast

lemma decodeAudioData_Inr:
  "decodeAudioData a r = Inr b \<Longrightarrow> sampleRate b = r \<and> channelData b \<noteq> []"
  by (auto simp: decodeAudioData_def split: sum.splits if_splits)

lemma duration_nonneg: "decodeAudioData a 24000 = Inr b \<Longrightarrow> 0 \<le> duration b"
  using decodeAudioData_Inr [of a 24000 b] by (simp add: duration_def fl_nonneg)

lemma schedule_receive_fragment:
  "started (receive_fragment r f s) = started s"
  "nextStartTimeRef (receive_fragment r f s) = nextStartTimeRef s"
  by (simp_all add: receive_fragment_def split: option.splits)

lemma nextStartTimeRef_schedule_buffer:
  "nextStartTimeRef (schedule_buffer now d s) = fl (max now (nextStartTimeRef s) + d)"
  by (simp add: schedule_buffer_def Let_def)

lemma onmessage_schedules:
  assumes "connectionIdRef s = token" "audioData m = Some a" "a \<noteq> []"
    "audioContextRef s \<noteq> None" "outputAnalyserRef s \<noteq> None" "decodeAudioData a 24000 = Inr b"
  shows "started (onmessage token now m s) = started s @ [(max now (nextStartTimeRef s), duration b)]"
    and "nextStartTimeRef (onmessage token now m s) = fl (max now (nextStartTimeRef s) + duration b)"
  using assms
  by (simp_all add: onmessage_def play_audio_def schedule_receive_fragment
      started_schedule_buffer nextStartTimeRef_schedule_buffer)

lemma onmessage_schedule_cases:
  "(started (onmessage token now m s) = started s \<and>
    nextStartTimeRef (onmessage token now m s) = nextStartTimeRef s) \<or>
   (\<exists>d. 0 \<le> d \<and>
      started (onmessage token now m s) = started s @ [(max now (nextStartTimeRef s), d)] \<and>
      nextStartTimeRef (onmessage token now m s) = fl (max now (nextStartTimeRef s) + d))"
proof (cases "connectionIdRef s = token")
  case False
  then show ?thesis by (simp add: onmessage_def)
next
  case True
  show ?thesis
  proof (cases "play_audio now m s")
    case (Inl e)
    with True show ?thesis by (simp add: onmessage_def)
  next
    case (Inr s1)
    then have "s1 = s \<or> (\<exists>b. decodeAudioData (the (audioData m)) 24000 = Inr b \<and>
        s1 = schedule_buffer now (duration b) s)"
      by (auto simp: play_audio_def split: option.splits if_splits sum.splits)
    then show ?thesis
    proof
      assume "s1 = s"
      with True Inr show ?thesis by (simp add: onmessage_def schedule_receive_fragment)
    next
      assume "\<exists>b. decodeAudioData (the (audioData m)) 24000 = Inr b \<and>
        s1 = schedule_buffer now (duration b) s"
      then obtain b where b: "decodeAudioData (the (audioData m)) 24000 = Inr b"
        and s1: "s1 = schedule_buffer now (duration b) s" by blast
      from duration_nonneg [OF b] True Inr s1 show ?thesis
        by (intro disjI2 exI [of _ "duration b"])
           (simp add: onmessage_def schedule_receive_fragment started_schedule_buffer
              nextStartTimeRef_schedule_buffer)
    qed
  qed
qed

lemma handle_messages_snoc:
  "handle_messages (ms @ [(token, now, m)]) s = onmessage token now m (handle_messages ms s)"
  by (simp add: handle_messages_def)

lemma handle_messages_ok:
  assumes "schedule_ok T (started s) (nextStartTimeRef s)"
  shows "schedule_ok (T \<union> set (map (fst \<circ> snd) ms))
           (started (handle_messages ms s)) (nextStartTimeRef (handle_messages ms s))"
proof (induction ms rule: rev_induct)
  case Nil
  from assms show ?case by (simp add: handle_messages_def)
next
  case (snoc x ms)
  obtain token now m where x: "x = (token, now, m)" by (cases x)
  let ?s = "handle_messages ms s"
  let ?T = "T \<union> set (map (fst \<circ> snd) (ms @ [x]))"
  have sub: "T \<union> set (map (fst \<circ> snd) ms) \<subseteq> ?T" by auto
  have ok: "schedule_ok ?T (started ?s) (nextStartTimeRef ?s)"
    by (rule schedule_ok_mono [OF snoc.IH sub])
  have t: "now \<in> ?T" by (simp add: x)
  from onmessage_schedule_cases [of token now m ?s] show ?case
  proof
    assume "started (onmessage token now m ?s) = started ?s \<and>
      nextStartTimeRef (onmessage token now m ?s) = nextStartTimeRef ?s"
    with ok show ?thesis by (simp add: x handle_messages_snoc)
  next
    assume "\<exists>d. 0 \<le> d \<and>
      started (onmessage token now m ?s) = started ?s @ [(max now (nextStartTimeRef ?s), d)] \<and>
      nextStartTimeRef (onmessage token now m ?s) = fl (max now (nextStartTimeRef ?s) + d)"
    then obtain d where d: "0 \<le> d"
      and a: "started (onmessage token now m ?s) = started ?s @ [(max now (nextStartTimeRef ?s), d)]"
      and b: "nextStartTimeRef (onmessage token now m ?s) = fl (max now (nextStartTimeRef ?s) + d)"
      by blast
    from schedule_ok_snoc [OF ok d t] show ?thesis
      unfolding x handle_messages_snoc a b .
  qed
qed

lemma base64ToFloat32Array_Nil: "base64ToFloat32Array [] = Inr []"
  by (simp add: base64ToFloat32Array_def atob_def strip_padding_def)

lemma float32ArrayToBase64_nonempty: "xs \<noteq> [] \<Longrightarrow> float32ArrayToBase64 xs \<noteq> []"
proof
  assume xs: "xs \<noteq> []" and e: "float32ArrayToBase64 xs = []"
  from decode_encode [of xs] have "base64ToFloat32Array [] = Inr (map (\<lambda>x. Finite (real_of_int (sint (pcm16 x)) / 32768)) xs)"
    unfolding e .
  with xs show False by (simp add: base64ToFloat32Array_Nil)
qed

lemma decodeAudioData_encoded:
  "xs \<noteq> [] \<Longrightarrow> \<exists>b. decodeAudioData (float32ArrayToBase64 xs) r = Inr b \<and> duration b = fl (real (length xs) / r)"
  by (simp add: decodeAudioData_def decode_encode duration_def del: of_int_sint)

lemma onmessage_audio_message:
  assumes "connectionIdRef s = token" "audioContextRef s \<noteq> None" "outputAnalyserRef s \<noteq> None" "xs \<noteq> []"
  shows "onmessage token now (audio_message (float32ArrayToBase64 xs)) s =
           schedule_buffer now (fl (real (length xs) / 24000)) s"
proof -
  from decodeAudioData_encoded [OF assms(4), of 24000] obtain b where
    b: "decodeAudioData (float32ArrayToBase64 xs) 24000 = Inr b" and d: "duration b = fl (real (length xs) / 24000)"
    by blast
  show ?thesis
    using assms float32ArrayToBase64_nonempty [OF assms(4)]
    by (simp add: onmessage_def play_audio_def audio_message_def receive_fragment_def b d)
qed

lemma schedule_buffer_frame:
  "connectionIdRef (schedule_buffer now d s) = connectionIdRef s"
  "audioContextRef (schedule_buffer now d s) = audioContextRef s"
  "outputAnalyserRef (schedule_buffer now d s) = outputAnalyserRef s"
  by (simp_all add: schedule_buffer_def Let_def)

lemma ready_session:
  "connectionIdRef (fst (after_getUserMedia ''1'' 11 12 13 14 (startSession ''1'' 3 (initial_session 3)))) = ''1''"
  "audioContextRef (fst (after_getUserMedia ''1'' 11 12 13 14 (startSession ''1'' 3 (initial_session 3)))) \<noteq> None"
  "outputAnalyserRef (fst (after_getUserMedia ''1'' 11 12 13 14 (startSession ''1'' 3 (initial_session 3)))) \<noteq> None"
  "nextStartTimeRef (fst (after_getUserMedia ''1'' 11 12 13 14 (startSession ''1'' 3 (initial_session 3)))) = 0"
  "started (fst (after_getUserMedia ''1'' 11 12 13 14 (startSession ''1'' 3 (initial_session 3)))) = []"
  by (simp_all add: after_getUserMedia_def startSession_def cleanupAudio_def initial_session_def)

lemma fl_tenth: "fl (1 / 10) = 3602879701896397 / 36028797018963968"
proof -
  have "fl (1 / 10) = of_int 7205759403792794 * 2 powi (- 4 - 52)"
    by (rule fl_eval) (simp_all add: round_half_even_def)
  then show ?thesis by simp
qed

lemma fl_seven_tenths: "fl (7 / 10) = 3152519739159347 / 4503599627370496"
proof -
  have "fl (7 / 10) = of_int 6305039478318694 * 2 powi (- 1 - 52)"
    by (rule fl_eval) (simp_all add: round_half_even_def)
  then show ?thesis by simp
qed

lemma fl_fl_tenth: "fl (3602879701896397 / 36028797018963968) = 3602879701896397 / 36028797018963968"
proof -
  have "fl (3602879701896397 / 36028797018963968) = of_int 7205759403792794 * 2 powi (- 4 - 52)"
    by (rule fl_eval) (simp_all add: round_half_even_def)
  then show ?thesis by simp
qed

lemma fl_sum_tenths:
  "fl (3602879701896397 / 36028797018963968 + 3152519739159347 / 4503599627370496) =
     7205759403792793 / 9007199254740992"
proof -
  have "fl (3602879701896397 / 36028797018963968 + 3152519739159347 / 4503599627370496) =
        of_int 7205759403792793 * 2 powi (- 1 - 52)"
    by (rule fl_eval) (simp_all add: round_half_even_def)
  then show ?thesis by simp
qed

lemma transcript_receive_fragment:
  "transcript (receive_fragment r f s) = merged_spec r f (transcript s)"
  by (auto simp: receive_fragment_def merged_spec_def merge_fragment_def split: option.splits)

lemma play_audio_no_throw:
  "\<not> audio_throws m s \<Longrightarrow> \<exists>s1. play_audio now m s = Inr s1 \<and> transcript s1 = transcript s"
  by (auto simp: audio_throws_def play_audio_def transcript_schedule_buffer
      split: option.splits sum.splits)

lemma transcript_onmessage:
  assumes "connectionIdRef s = token" and "\<not> audio_throws m s"
  shows "transcript (onmessage token now m s) =
           merged_spec Model (outputTranscription m) (merged_spec User (inputTranscription m) (transcript s))"
proof -
  from play_audio_no_throw [OF assms(2), of now] obtain s1 where
    "play_audio now m s = Inr s1" "transcript s1 = transcript s" by blast
  with assms(1) show ?thesis
    by (simp add: onmessage_def transcript_receive_fragment)
qed

lemma connectionIdRef_onmessage: "connectionIdRef (onmessage token now m s) = connectionIdRef s"
  by (auto simp: onmessage_def play_audio_def receive_fragment_def schedule_buffer_def Let_def
      split: option.splits sum.splits)

lemma audio_throws_fragment_message: "\<not> audio_throws (fragment_message r t) s"
  by (simp add: audio_throws_def fragment_message_def)

lemma transcript_fragment_message:
  assumes "connectionIdRef s = token"
  shows "transcript (onmessage token now (fragment_message r t) s) = merged_spec r (Some t) (transcript s)"
proof -
  have "transcript (onmessage token now (fragment_message r t) s) =
      merged_spec Model (outputTranscription (fragment_message r t))
        (merged_spec User (inputTranscription (fragment_message r t)) (transcript s))"
    by (rule transcript_onmessage [OF assms audio_throws_fragment_message])
  then show ?thesis
    by (cases r) (simp_all add: fragment_message_def merged_spec_def)
qed

lemma delivered_nonempty:
  "(if entries \<noteq> [] then join sep (map transcript_line entries)
    else if raw \<noteq> [] then raw else ''No transcript available.'') \<noteq> []"
  by (simp add: joined_nonempty)

text \<open>
  The interval that the timer effect installs keeps the \<^verbatim>\<open>handleEndInterview\<close> of the
  render in which \<^verbatim>\<open>hasStarted\<close> became true, and the log of that render is empty. When
  the countdown runs out it hands over the raw text buffer, whatever the session's log
  holds by then.
\<close>

lemma countdown_closure_delivers_raw_text:
  assumes "intervalActive s" "\<not> isEndedRef s" "timeLeft s \<le> 1" "transcriptTextRef s \<noteq> []"
  shows "completed (tick [] s) = completed s @ [transcriptTextRef s]"
  using assms by (simp add: tick_def completed_handleEndInterview finalTranscript_cases)

lemma three_chunks_started:
  "started (handle_messages
      [(''1'', 0, audio_message (float32ArrayToBase64 (replicate 2400 (Finite 0)))),
       (''1'', 0, audio_message (float32ArrayToBase64 (replicate 16800 (Finite 0)))),
       (''1'', 0, audio_message (float32ArrayToBase64 (replicate 2400 (Finite 0))))]
      (fst (after_getUserMedia ''1'' 11 12 13 14 (startSession ''1'' 3 (initial_session 3)))))
     = [(0, 3602879701896397 / 36028797018963968),
        (3602879701896397 / 36028797018963968, 3152519739159347 / 4503599627370496),
        (7205759403792793 / 9007199254740992, 3602879701896397 / 36028797018963968)]"
proof -
  let ?s0 = "fst (after_getUserMedia ''1'' 11 12 13 14 (startSession ''1'' 3 (initial_session 3)))"
  define D1 :: real where "D1 = 3602879701896397 / 36028797018963968"
  define D2 :: real where "D2 = 3152519739159347 / 4503599627370496"
  define C2 :: real where "C2 = 7205759403792793 / 9007199254740992"
  have d1: "fl (real (length (replicate 2400 (Finite 0))) / 24000) = D1"
    by (simp add: fl_tenth D1_def)
  have d2: "fl (real (length (replicate 16800 (Finite 0))) / 24000) = D2"
    by (simp add: fl_seven_tenths D2_def)
  have p: "0 \<le> D1" "0 \<le> C2" by (simp_all add: D1_def C2_def)
  have f1: "fl D1 = D1" unfolding D1_def by (rule fl_fl_tenth)
  have f2: "fl (D1 + D2) = C2" unfolding D1_def D2_def C2_def by (rule fl_sum_tenths)
  let ?s1 = "schedule_buffer 0 D1 ?s0"
  let ?s2 = "schedule_buffer 0 D2 ?s1"
  let ?s3 = "schedule_buffer 0 D1 ?s2"
  have s1: "onmessage ''1'' 0 (audio_message (float32ArrayToBase64 (replicate 2400 (Finite 0)))) ?s0 = ?s1"
    unfolding d1 [symmetric] by (rule onmessage_audio_message) (simp_all add: ready_session)
  have s2: "onmessage ''1'' 0 (audio_message (float32ArrayToBase64 (replicate 16800 (Finite 0)))) ?s1 = ?s2"
    unfolding d2 [symmetric] by (rule onmessage_audio_message) (simp_all add: ready_session schedule_buffer_frame)
  have s3: "onmessage ''1'' 0 (audio_message (float32ArrayToBase64 (replicate 2400 (Finite 0)))) ?s2 = ?s3"
    unfolding d1 [symmetric] by (rule onmessage_audio_message) (simp_all add: ready_session schedule_buffer_frame)
  have n1: "nextStartTimeRef ?s1 = D1"
    by (simp add: nextStartTimeRef_schedule_buffer ready_session f1)
  have "nextStartTimeRef ?s2 = fl (max 0 (nextStartTimeRef ?s1) + D2)"
    by (rule nextStartTimeRef_schedule_buffer)
  also have "\<dots> = C2" unfolding n1 using p by (simp add: f2 max_def)
  finally have n2: "nextStartTimeRef ?s2 = C2" .
  have l1: "started ?s1 = [(0, D1)]"
    by (simp add: started_schedule_buffer ready_session)
  have "started ?s2 = started ?s1 @ [(max 0 (nextStartTimeRef ?s1), D2)]"
    by (rule started_schedule_buffer)
  then have l2: "started ?s2 = [(0, D1), (D1, D2)]"
    unfolding n1 l1 using p by (simp add: max_def)
  have "started ?s3 = started ?s2 @ [(max 0 (nextStartTimeRef ?s2), D1)]"
    by (rule started_schedule_buffer)
  then have l: "started ?s3 = [(0, D1), (D1, D2), (C2, D1)]"
    unfolding n2 l2 using p by (simp add: max_def)
  have "handle_messages
      [(''1'', 0, audio_message (float32ArrayToBase64 (replicate 2400 (Finite 0)))),
       (''1'', 0, audio_message (float32ArrayToBase64 (replicate 16800 (Finite 0)))),
       (''1'', 0, audio_message (float32ArrayToBase64 (replicate 2400 (Finite 0))))] ?s0 = ?s3"
    by (simp only: handle_messages_def foldl.simps prod.case s1 s2 s3)
  with l have "started (handle_messages
      [(''1'', 0, audio_message (float32ArrayToBase64 (replicate 2400 (Finite 0)))),
       (''1'', 0, audio_message (float32ArrayToBase64 (replicate 16800 (Finite 0)))),
       (''1'', 0, audio_message (float32ArrayToBase64 (replicate 2400 (Finite 0))))] ?s0)
     = [(0, D1), (D1, D2), (C2, D1)]" by (simp only:)
  then show ?thesis unfolding D1_def D2_def C2_def .
qed

section \<open>Claims about the session\<close>

text \<open>
  Claim C2 (playback schedule), as stated, fails: the cursor is advanced by a double
  addition, not by exactly the duration. Three chunks of 2400, 16800 and 2400 samples,
  handled at time 0 by a fresh session, have the durations 0.1 and 0.7 (as doubles) for
  the first two, and the third is started at 0.7999999999999999, below the sum of the
  two durations before it.
\<close>

theorem playback_schedule_counterexample:
  "started (handle_messages
      [(''1'', 0, audio_message (float32ArrayToBase64 (replicate 2400 (Finite 0)))),
       (''1'', 0, audio_message (float32ArrayToBase64 (replicate 16800 (Finite 0)))),
       (''1'', 0, audio_message (float32ArrayToBase64 (replicate 2400 (Finite 0))))]
      (fst (after_getUserMedia ''1'' 11 12 13 14 (startSession ''1'' 3 (initial_session 3)))))
     = [(0, 3602879701896397 / 36028797018963968),
        (3602879701896397 / 36028797018963968, 3152519739159347 / 4503599627370496),
        (7205759403792793 / 9007199254740992, 3602879701896397 / 36028797018963968)] \<and>
   (7205759403792793 / 9007199254740992 :: real)
     < 3602879701896397 / 36028797018963968 + 3152519739159347 / 4503599627370496"
  by (intro conjI three_chunks_started) simp

text \<open>
  Claim C2, amended. A buffer that \<^verbatim>\<open>onmessage\<close> decodes is started at
  \<open>max currentTime nextStartTime\<close>, and the cursor is set to that start plus the buffer's
  duration, rounded to a double. Hence, for every sequence of messages handled from a
  fresh cursor, with the started buffers in order: the final cursor is the one the last
  buffer left; every buffer starts at or after the cursor its predecessor left, at that
  cursor or else at a current time that had run ahead of it (an idle gap), and so no
  earlier than the predecessor's end less one rounding error; its start is at least the
  running sum of the earlier durations, added as doubles, and equals that sum when no
  idle gap occurred so far.
\<close>

theorem playback_schedule:
  assumes "nextStartTimeRef s = 0" and "started s = []"
  shows "(connectionIdRef s' = token \<and> audioData m = Some a \<and> a \<noteq> [] \<and>
      audioContextRef s' \<noteq> None \<and> outputAnalyserRef s' \<noteq> None \<and> decodeAudioData a 24000 = Inr b \<longrightarrow>
        started (onmessage token t m s') = started s' @ [(max t (nextStartTimeRef s'), duration b)] \<and>
        nextStartTimeRef (onmessage token t m s') = fl (max t (nextStartTimeRef s') + duration b)) \<and>
    (let bs = started (handle_messages ms s)
     in nextStartTimeRef (handle_messages ms s) = cursor_before bs (length bs) \<and>
        (\<forall>j < length bs.
           cursor_before bs j \<le> fst (bs ! j) \<and>
           (fst (bs ! j) = cursor_before bs j \<or> fst (bs ! j) \<in> set (map (fst \<circ> snd) ms)) \<and>
           (0 < j \<longrightarrow> (fst (bs ! (j - 1)) + snd (bs ! (j - 1))) * (1 - 1 / 2 ^ 53) \<le> fst (bs ! j)) \<and>
           float_sum (map snd (take j bs)) \<le> fst (bs ! j) \<and>
           ((\<forall>k \<le> j. fst (bs ! k) = cursor_before bs k) \<longrightarrow>
              fst (bs ! j) = float_sum (map snd (take j bs)))))"
proof (intro conjI impI)
  assume "connectionIdRef s' = token \<and> audioData m = Some a \<and> a \<noteq> [] \<and>
      audioContextRef s' \<noteq> None \<and> outputAnalyserRef s' \<noteq> None \<and> decodeAudioData a 24000 = Inr b"
  then show "started (onmessage token t m s') = started s' @ [(max t (nextStartTimeRef s'), duration b)]"
    and "nextStartTimeRef (onmessage token t m s') = fl (max t (nextStartTimeRef s') + duration b)"
    by (simp_all add: onmessage_schedules)
next
  let ?bs = "started (handle_messages ms s)"
  let ?c = "nextStartTimeRef (handle_messages ms s)"
  let ?T = "set (map (fst \<circ> snd) ms)"
  have "schedule_ok {} (started s) (nextStartTimeRef s)"
    using assms by (simp add: schedule_ok_Nil)
  from handle_messages_ok [OF this, of ms] have ok: "schedule_ok ?T ?bs ?c" by simp
  then have c: "?c = cursor_before ?bs (length ?bs)"
    and per: "\<And>j. j < length ?bs \<Longrightarrow>
        0 \<le> snd (?bs ! j) \<and> 0 \<le> fst (?bs ! j) \<and> cursor_before ?bs j \<le> fst (?bs ! j) \<and>
        float_sum (map snd (take j ?bs)) \<le> fst (?bs ! j) \<and>
        ((\<forall>k \<le> j. fst (?bs ! k) = cursor_before ?bs k) \<longrightarrow>
           fst (?bs ! j) = float_sum (map snd (take j ?bs))) \<and>
        (fst (?bs ! j) = cursor_before ?bs j \<or> fst (?bs ! j) \<in> ?T)"
    unfolding schedule_ok_def by blast+
  have gap: "(fst (?bs ! (j - 1)) + snd (?bs ! (j - 1))) * (1 - 1 / 2 ^ 53) \<le> fst (?bs ! j)"
    if j: "j < length ?bs" and p: "0 < j" for j
  proof -
    from j p have "j - 1 < length ?bs" by simp
    from per [OF this] have nn: "0 \<le> fst (?bs ! (j - 1)) + snd (?bs ! (j - 1))" by simp
    from p have "cursor_before ?bs j = fl (fst (?bs ! (j - 1)) + snd (?bs ! (j - 1)))"
      by (simp add: cursor_before_def)
    with fl_lower [OF nn] per [OF j] show ?thesis by linarith
  qed
  show "let bs = ?bs
     in ?c = cursor_before bs (length bs) \<and>
        (\<forall>j < length bs.
           cursor_before bs j \<le> fst (bs ! j) \<and>
           (fst (bs ! j) = cursor_before bs j \<or> fst (bs ! j) \<in> ?T) \<and>
           (0 < j \<longrightarrow> (fst (bs ! (j - 1)) + snd (bs ! (j - 1))) * (1 - 1 / 2 ^ 53) \<le> fst (bs ! j)) \<and>
           float_sum (map snd (take j bs)) \<le> fst (bs ! j) \<and>
           ((\<forall>k \<le> j. fst (bs ! k) = cursor_before bs k) \<longrightarrow>
              fst (bs ! j) = float_sum (map snd (take j bs))))"
    unfolding Let_def using c per gap by blast
qed

theorem playback_schedule_witness:
  "nextStartTimeRef (fst (after_getUserMedia ''1'' 11 12 13 14 (startSession ''1'' 3 (initial_session 3)))) = 0 \<and>
   started (fst (after_getUserMedia ''1'' 11 12 13 14 (startSession ''1'' 3 (initial_session 3)))) = [] \<and>
   started (onmessage ''1'' 5 (audio_message (float32ArrayToBase64 (replicate 2400 (Finite 0)))) (fst (after_getUserMedia ''1'' 11 12 13 14 (startSession ''1'' 3 (initial_session 3)))))
     = [(5, 3602879701896397 / 36028797018963968)] \<and>
   nextStartTimeRef (handle_messages
      [(''1'', 0, audio_message (float32ArrayToBase64 (replicate 2400 (Finite 0)))),
       (''1'', 0, audio_message (float32ArrayToBase64 (replicate 16800 (Finite 0)))),
       (''1'', 0, audio_message (float32ArrayToBase64 (replicate 2400 (Finite 0))))]
      (fst (after_getUserMedia ''1'' 11 12 13 14 (startSession ''1'' 3 (initial_session 3)))))
     = fl (7205759403792793 / 9007199254740992 + 3602879701896397 / 36028797018963968) \<and>
   float_sum [3602879701896397 / 36028797018963968, 3152519739159347 / 4503599627370496]
     \<le> 7205759403792793 / 9007199254740992"
proof -
  let ?s0 = "fst (after_getUserMedia ''1'' 11 12 13 14 (startSession ''1'' 3 (initial_session 3)))"
  let ?a = "float32ArrayToBase64 (replicate 2400 (Finite 0))"
  have h1: "nextStartTimeRef ?s0 = 0" and h2: "started ?s0 = []"
    by (rule ready_session)+
  have ne: "replicate 2400 (Finite 0) \<noteq> []" by simp
  from decodeAudioData_encoded [OF ne, of 24000] obtain b where
    b: "decodeAudioData ?a 24000 = Inr b"
    and d: "duration b = fl (real (length (replicate 2400 (Finite 0))) / 24000)" by blast
  have d': "duration b = 3602879701896397 / 36028797018963968"
    unfolding d by (simp add: fl_tenth)
  have pre: "connectionIdRef ?s0 = ''1'' \<and> audioData (audio_message ?a) = Some ?a \<and> ?a \<noteq> [] \<and>
      audioContextRef ?s0 \<noteq> None \<and> outputAnalyserRef ?s0 \<noteq> None \<and> decodeAudioData ?a 24000 = Inr b"
    using b float32ArrayToBase64_nonempty [OF ne] by (simp add: ready_session audio_message_def)
  from playback_schedule [OF h1 h2, THEN conjunct1, rule_format, OF pre, of 5]
  have s: "started (onmessage ''1'' 5 (audio_message ?a) ?s0) = [(5, 3602879701896397 / 36028797018963968)]"
    by (simp add: h1 h2 d')
  note t = playback_schedule [OF h1 h2, THEN conjunct2, unfolded Let_def,
      of "[(''1'', 0, audio_message (float32ArrayToBase64 (replicate 2400 (Finite 0)))),
       (''1'', 0, audio_message (float32ArrayToBase64 (replicate 16800 (Finite 0)))),
       (''1'', 0, audio_message (float32ArrayToBase64 (replicate 2400 (Finite 0))))]", unfolded three_chunks_started]
  have a: "nextStartTimeRef (handle_messages
      [(''1'', 0, audio_message (float32ArrayToBase64 (replicate 2400 (Finite 0)))),
       (''1'', 0, audio_message (float32ArrayToBase64 (replicate 16800 (Finite 0)))),
       (''1'', 0, audio_message (float32ArrayToBase64 (replicate 2400 (Finite 0))))]
      ?s0) = fl (7205759403792793 / 9007199254740992 + 3602879701896397 / 36028797018963968)"
    using t [THEN conjunct1] by (simp add: cursor_before_def)
  have c: "float_sum [3602879701896397 / 36028797018963968, 3152519739159347 / 4503599627370496]
     \<le> 7205759403792793 / 9007199254740992"
    using t [THEN conjunct2, rule_format, of 2] by simp
  from h1 h2 s a c show ?thesis by (intro conjI)
qed

text \<open>
  Claim C3 (transcript merge), as stated, fails for a fragment with empty text: after
  an entry of the user, an empty fragment of the model pushes no entry.
\<close>

theorem transcript_merge_counterexample:
  "transcript (onmessage ''1'' 0 (fragment_message User ''a'') (startSession ''1'' 3 (initial_session 3)))
     = [\<lparr>role = User, entry_text = ''a''\<rparr>] \<and>
   transcript (onmessage ''1'' 0 (fragment_message Model [])
       (onmessage ''1'' 0 (fragment_message User ''a'') (startSession ''1'' 3 (initial_session 3))))
     = [\<lparr>role = User, entry_text = ''a''\<rparr>]"
proof -
  have c: "connectionIdRef (startSession ''1'' 3 (initial_session 3)) = ''1''"
    and t: "transcript (startSession ''1'' 3 (initial_session 3)) = []"
    by (simp_all add: startSession_def cleanupAudio_def)
  show ?thesis
    by (simp add: transcript_fragment_message connectionIdRef_onmessage c t merged_spec_def)
qed

text \<open>
  Claim C3, amended. A message handled under the current token, whose audio part (if
  any) does not make the decoder throw, updates the log with its user fragment and then
  with its model fragment: a fragment with non-empty text is appended to the last entry
  when that entry has the fragment's role and pushed as a new entry otherwise; an empty
  or absent fragment changes nothing. Hence, from an empty log, after every sequence of
  messages no two adjacent entries have the same role, and the fragments \<^verbatim>\<open>Hel\<close>,
  \<^verbatim>\<open>lo wor\<close>, \<^verbatim>\<open>ld\<close> of one role leave the single entry \<^verbatim>\<open>Hello world\<close>.
\<close>

theorem transcript_merge:
  "(connectionIdRef s = token \<and> \<not> audio_throws m s \<longrightarrow>
      transcript (onmessage token now m s) =
        merged_spec Model (outputTranscription m) (merged_spec User (inputTranscription m) (transcript s))) \<and>
   (transcript s = [] \<longrightarrow> no_adjacent_same_role (transcript (handle_messages ms s))) \<and>
   (transcript s = [] \<and> connectionIdRef s = token \<longrightarrow>
      transcript (handle_messages
        [(token, t1, fragment_message r ''Hel''), (token, t2, fragment_message r ''lo wor''),
         (token, t3, fragment_message r ''ld'')] s) = [\<lparr>role = r, entry_text = ''Hello world''\<rparr>])"
proof (intro conjI impI)
  assume "connectionIdRef s = token \<and> \<not> audio_throws m s"
  then show "transcript (onmessage token now m s) =
        merged_spec Model (outputTranscription m) (merged_spec User (inputTranscription m) (transcript s))"
    by (simp add: transcript_onmessage)
next
  assume "transcript s = []"
  then have "no_adjacent_same_role (transcript s)" by simp
  then show "no_adjacent_same_role (transcript (handle_messages ms s))" by (rule nas_handle_messages)
next
  assume a: "transcript s = [] \<and> connectionIdRef s = token"
  then show "transcript (handle_messages
        [(token, t1, fragment_message r ''Hel''), (token, t2, fragment_message r ''lo wor''),
         (token, t3, fragment_message r ''ld'')] s) = [\<lparr>role = r, entry_text = ''Hello world''\<rparr>]"
    by (simp add: handle_messages_def transcript_fragment_message connectionIdRef_onmessage merged_spec_def)
qed

theorem transcript_merge_witness:
  "transcript (startSession ''1'' 3 (initial_session 3)) = [] \<and>
   connectionIdRef (startSession ''1'' 3 (initial_session 3)) = ''1'' \<and>
   transcript (onmessage ''1'' 0
       \<lparr>audioData = None, inputTranscription = Some ''hi'', outputTranscription = Some ''yo''\<rparr>
       (startSession ''1'' 3 (initial_session 3)))
     = [\<lparr>role = User, entry_text = ''hi''\<rparr>, \<lparr>role = Model, entry_text = ''yo''\<rparr>] \<and>
   no_adjacent_same_role (transcript (handle_messages
       [(''1'', 0, fragment_message User ''a''), (''1'', 1, fragment_message Model ''b''),
        (''1'', 2, fragment_message Model ''c'')] (startSession ''1'' 3 (initial_session 3)))) \<and>
   transcript (handle_messages
       [(''1'', 0, fragment_message Model ''Hel''), (''1'', 1, fragment_message Model ''lo wor''),
        (''1'', 2, fragment_message Model ''ld'')] (startSession ''1'' 3 (initial_session 3)))
     = [\<lparr>role = Model, entry_text = ''Hello world''\<rparr>]"
proof -
  let ?s = "startSession ''1'' 3 (initial_session 3)"
  let ?m = "\<lparr>audioData = None, inputTranscription = Some ''hi'', outputTranscription = Some ''yo''\<rparr>"
  have h: "transcript ?s = []" and c: "connectionIdRef ?s = ''1''"
    by (simp_all add: startSession_def cleanupAudio_def)
  have n: "\<not> audio_throws ?m ?s" by (simp add: audio_throws_def)
  note t = transcript_merge [of ?s "''1''" ?m 0
      "[(''1'', 0, fragment_message User ''a''), (''1'', 1, fragment_message Model ''b''),
        (''1'', 2, fragment_message Model ''c'')]" 0 Model 1 2]
  from t h c n show ?thesis by (simp add: merged_spec_def)
qed

text \<open>
  Claim C4 (final transcript), as stated, fails in its last part: with an empty log and
  an empty text buffer the transcript handed to \<^verbatim>\<open>onComplete\<close> is
  \<^verbatim>\<open>No transcript available.\<close>, not \<^verbatim>\<open>No conversation recorded.\<close>
\<close>

theorem final_transcript_counterexample:
  "completed (handleEndInterview [] (initial_session 3)) = [''No transcript available.''] \<and>
   completed (handleEndInterview [] (initial_session 3)) \<noteq> [''No conversation recorded.''] \<and>
   completed (end_button (initial_session 3)) = [''No transcript available.'']"
  by (simp add: end_button_def completed_handleEndInterview finalTranscript_cases initial_session_def)

text \<open>
  Claim C4, amended. When the user ends a session that has not ended yet, the transcript
  handed to \<^verbatim>\<open>onComplete\<close> is the session's log flattened to lines \<open>RoleLabel: text\<close>
  (\<^verbatim>\<open>Candidate\<close> for the user, \<^verbatim>\<open>Interviewer\<close> for the model) joined by blank lines; if the
  log is empty it is the raw text buffer; if that is empty too it is the literal
  \<^verbatim>\<open>No transcript available.\<close> The application's \<^verbatim>\<open>handleInterviewComplete\<close> passes that
  text on unchanged.
\<close>

theorem final_transcript_flattening:
  "\<not> isEndedRef s \<longrightarrow>
     (let delivered =
        (if transcript s \<noteq> [] then
           join [CHR 0x0A, CHR 0x0A]
             (map (\<lambda>t. (case role t of User \<Rightarrow> ''Candidate'' | Model \<Rightarrow> ''Interviewer'') @ '': '' @ entry_text t)
                (transcript s))
         else if transcriptTextRef s \<noteq> [] then transcriptTextRef s
         else ''No transcript available.'')
      in completed (end_button s) = completed s @ [delivered] \<and>
         handleInterviewComplete True delivered = Some delivered)"
proof -
  have tl: "transcript_line =
      (\<lambda>t. (case role t of User \<Rightarrow> ''Candidate'' | Model \<Rightarrow> ''Interviewer'') @ '': '' @ entry_text t)"
    by (rule ext) (simp add: transcript_line_def role_label_def)
  have ne: "finalTranscript (transcript s) (transcriptTextRef s) \<noteq> []"
    unfolding finalTranscript_cases by (rule delivered_nonempty)
  have "\<not> isEndedRef s \<longrightarrow>
      completed (end_button s) = completed s @ [finalTranscript (transcript s) (transcriptTextRef s)] \<and>
      handleInterviewComplete True (finalTranscript (transcript s) (transcriptTextRef s))
        = Some (finalTranscript (transcript s) (transcriptTextRef s))"
    using ne by (simp add: end_button_def completed_handleEndInterview handleInterviewComplete_def)
  then show ?thesis unfolding finalTranscript_cases tl Let_def .
qed

theorem final_transcript_flattening_witness:
  "completed (end_button (onmessage ''1'' 0
       \<lparr>audioData = None, inputTranscription = Some ''hi'', outputTranscription = Some ''yo''\<rparr>
       (startSession ''1'' 3 (initial_session 3))))
     = [''Candidate: hi'' @ [CHR 0x0A, CHR 0x0A] @ ''Interviewer: yo''] \<and>
   completed (end_button ((startSession ''1'' 3 (initial_session 3))\<lparr>transcriptTextRef := ''hiyo''\<rparr>)) = [''hiyo''] \<and>
   completed (end_button (startSession ''1'' 3 (initial_session 3))) = [''No transcript available.'']"
proof -
  let ?s0 = "startSession ''1'' 3 (initial_session 3)"
  let ?s1 = "onmessage ''1'' 0
       \<lparr>audioData = None, inputTranscription = Some ''hi'', outputTranscription = Some ''yo''\<rparr> ?s0"
  have s1: "transcript ?s1 = [\<lparr>role = User, entry_text = ''hi''\<rparr>, \<lparr>role = Model, entry_text = ''yo''\<rparr>]"
    "\<not> isEndedRef ?s1" "completed ?s1 = []"
    by (simp_all add: onmessage_def play_audio_def receive_fragment_def merge_fragment_def
        startSession_def cleanupAudio_def initial_session_def)
  have s0: "transcript ?s0 = []" "\<not> isEndedRef ?s0" "completed ?s0 = []" "transcriptTextRef ?s0 = []"
    by (simp_all add: startSession_def cleanupAudio_def initial_session_def)
  from final_transcript_flattening [of ?s1] final_transcript_flattening [of ?s0]
    final_transcript_flattening [of "?s0\<lparr>transcriptTextRef := ''hiyo''\<rparr>"] s1 s0
  show ?thesis by (simp add: Let_def)
qed



text \<open>
  Claim C6 (stale generation). A callback that carries a token other than the current one
  leaves the session exactly as it found it: nothing is sent, nothing is scheduled, the
  transcript and the connection flags are untouched. This holds for the capture
  callback, for \<^verbatim>\<open>onopen\<close>, \<^verbatim>\<open>onmessage\<close>, \<^verbatim>\<open>onclose\<close> and \<^verbatim>\<open>onerror\<close>, and for the
  continuations after the microphone is acquired and after the channel is connected.
\<close>

theorem stale_generation_noop:
  "connectionIdRef s \<noteq> token \<Longrightarrow>
     onaudioprocess token rate block throws s = s \<and>
     onopen token s = s \<and>
     onmessage token now m s = s \<and>
     onclose token s = s \<and>
     onerror token s = s \<and>
     fst (after_getUserMedia token stream ctx analyser inputCtx s) = s \<and>
     fst (after_connect token h s) = s"
  by (simp add: onaudioprocess_def onopen_def onmessage_def onclose_def onerror_def
      after_getUserMedia_def after_connect_def)

theorem stale_generation_noop_witness:
  "connectionIdRef (startSession ''2'' 3 (onopen ''1'' (startSession ''1'' 3 (initial_session 3)))) \<noteq> ''1'' \<and>
   onmessage ''1'' 0 \<lparr>audioData = None, inputTranscription = Some ''late'', outputTranscription = None\<rparr>
       (startSession ''2'' 3 (onopen ''1'' (startSession ''1'' 3 (initial_session 3))))
     = startSession ''2'' 3 (onopen ''1'' (startSession ''1'' 3 (initial_session 3))) \<and>
   onaudioprocess ''1'' 48000 [Finite (1 / 2)] False
       (startSession ''2'' 3 (onopen ''1'' (startSession ''1'' 3 (initial_session 3))))
     = startSession ''2'' 3 (onopen ''1'' (startSession ''1'' 3 (initial_session 3))) \<and>
   fst (after_connect ''1'' 7 (startSession ''2'' 3 (onopen ''1'' (startSession ''1'' 3 (initial_session 3)))))
     = startSession ''2'' 3 (onopen ''1'' (startSession ''1'' 3 (initial_session 3)))"
proof -
  let ?s = "startSession ''2'' 3 (onopen ''1'' (startSession ''1'' 3 (initial_session 3)))"
  have h: "connectionIdRef ?s \<noteq> ''1''"
    by (simp add: startSession_def cleanupAudio_def)
  from stale_generation_noop [OF h, of 48000 "[Finite (1 / 2)]" False 0
      "\<lparr>audioData = None, inputTranscription = Some ''late'', outputTranscription = None\<rparr>" _ _ _ _ 7] h
  show ?thesis by simp
qed

text \<open>
  Claim C7 (capture gating). A captured block is dropped, leaving the session as it was,
  when the token is stale, or the channel is not open (the connection flag is down or no
  channel handle is held), or the microphone is muted. Otherwise the block is resampled
  if the capture rate exceeds 16000, encoded and handed to the channel's send; when the
  send throws, the exception is swallowed and the session is left as it was.
\<close>

theorem capture_gating:
  "onaudioprocess token rate block throws s =
     (if connectionIdRef s \<noteq> token \<or> \<not> isConnectedRef s \<or> activeSessionRef s = None \<or> \<not> isMicOnRef s
      then s
      else if throws then s
      else s\<lparr>sent := sent s @ [float32ArrayToBase64 (if rate > 16000 then downsample rate block else block)]\<rparr>)"
  by (simp add: onaudioprocess_def sendRealtimeInput_def processingData_def Let_def)

theorem capture_gating_witness:
  "sent (onaudioprocess ''1'' 16000 [Finite (1 / 2)] False
      (fst (after_connect ''1'' 7 (onopen ''1'' (startSession ''1'' 3 (initial_session 3))))))
     = [float32ArrayToBase64 [Finite (1 / 2)]] \<and>
   onaudioprocess ''1'' 16000 [Finite (1 / 2)] True
      (fst (after_connect ''1'' 7 (onopen ''1'' (startSession ''1'' 3 (initial_session 3)))))
     = fst (after_connect ''1'' 7 (onopen ''1'' (startSession ''1'' 3 (initial_session 3)))) \<and>
   onaudioprocess ''1'' 16000 [Finite (1 / 2)] False (onopen ''1'' (startSession ''1'' 3 (initial_session 3)))
     = onopen ''1'' (startSession ''1'' 3 (initial_session 3))"
  using capture_gating [of "''1''" 16000 "[Finite (1 / 2)]" False
      "fst (after_connect ''1'' 7 (onopen ''1'' (startSession ''1'' 3 (initial_session 3))))"]
    capture_gating [of "''1''" 16000 "[Finite (1 / 2)]" True
      "fst (after_connect ''1'' 7 (onopen ''1'' (startSession ''1'' 3 (initial_session 3))))"]
    capture_gating [of "''1''" 16000 "[Finite (1 / 2)]" False
      "onopen ''1'' (startSession ''1'' 3 (initial_session 3))"]
  by (simp add: after_connect_def onopen_def startSession_def cleanupAudio_def initial_session_def)

text \<open>
  Claim C9 (nearest-neighbour decimation), as stated, fails when the ratio is not a
  double: at 18560 Hz the ratio 1.16 is rounded down, and the sample at index 25 is the
  input sample at index 28, where \<open>\<lfloor>25 * 1.16\<rfloor> = 29\<close>.
\<close>

theorem decimation_counterexample:
  "(16000 :: real) < 18560 \<and>
   25 < length (processingData 18560
     [Finite 0, Finite 1, Finite 2, Finite 3, Finite 4, Finite 5, Finite 6, Finite 7,
      Finite 8, Finite 9, Finite 10, Finite 11, Finite 12, Finite 13, Finite 14, Finite 15,
      Finite 16, Finite 17, Finite 18, Finite 19, Finite 20, Finite 21, Finite 22, Finite 23,
      Finite 24, Finite 25, Finite 26, Finite 27, Finite 28, Finite 29, Finite 30, Finite 31]) \<and>
   processingData 18560
     [Finite 0, Finite 1, Finite 2, Finite 3, Finite 4, Finite 5, Finite 6, Finite 7,
      Finite 8, Finite 9, Finite 10, Finite 11, Finite 12, Finite 13, Finite 14, Finite 15,
      Finite 16, Finite 17, Finite 18, Finite 19, Finite 20, Finite 21, Finite 22, Finite 23,
      Finite 24, Finite 25, Finite 26, Finite 27, Finite 28, Finite 29, Finite 30, Finite 31] ! 25
     = Finite 28 \<and>
   [Finite 0, Finite 1, Finite 2, Finite 3, Finite 4, Finite 5, Finite 6, Finite 7,
      Finite 8, Finite 9, Finite 10, Finite 11, Finite 12, Finite 13, Finite 14, Finite 15,
      Finite 16, Finite 17, Finite 18, Finite 19, Finite 20, Finite 21, Finite 22, Finite 23,
      Finite 24, Finite 25, Finite 26, Finite 27, Finite 28, Finite 29, Finite 30, Finite 31]
     ! nat \<lfloor>25 * (18560 / 16000 :: real)\<rfloor> = Finite 29"
  by (simp add: processingData_def downsample_def Let_def fl_index_25 fl_length_32 typed_read_def)

text \<open>
  Claim C9, amended. When the capture rate exceeds 16000, the block that is encoded has
  length \<open>\<lfloor>length / ratio\<rfloor>\<close> and its \<open>i\<close>-th sample is the input sample at index
  \<open>\<lfloor>i * ratio\<rfloor>\<close>, where \<open>ratio = rate / 16000\<close>, the quotient \<open>length / ratio\<close> and the
  product \<open>i * ratio\<close> are each rounded to a double; for a block of fewer than \<open>2 ^ 52\<close>
  samples that index lies inside the input, so every output sample is a copy of one
  input sample. At 16000 or below the block is encoded as it is.
\<close>

theorem nearest_neighbour_decimation:
  "(16000 < rate \<and> length input < 2 ^ 52 \<longrightarrow>
      length (processingData rate input) = nat \<lfloor>fl (real (length input) / fl (rate / 16000))\<rfloor> \<and>
      (\<forall>i < length (processingData rate input).
         nat \<lfloor>fl (real i * fl (rate / 16000))\<rfloor> < length input \<and>
         processingData rate input ! i = input ! nat \<lfloor>fl (real i * fl (rate / 16000))\<rfloor>)) \<and>
   (rate \<le> 16000 \<longrightarrow> processingData rate input = input)"
proof (intro conjI impI allI)
  assume a: "16000 < rate \<and> length input < 2 ^ 52"
  then have "1 < rate / 16000" by simp
  then have one: "1 \<le> fl (rate / 16000)" by (rule fl_ratio_ge_1)
  show len: "length (processingData rate input) = nat \<lfloor>fl (real (length input) / fl (rate / 16000))\<rfloor>"
    using a by (simp add: processingData_def downsample_def Let_def)
  fix i assume "i < length (processingData rate input)"
  with len have i: "i < nat \<lfloor>fl (real (length input) / fl (rate / 16000))\<rfloor>" by simp
  from a have n: "length input < 2 ^ 52" by simp
  from downsample_index [OF one n i]
  show b: "nat \<lfloor>fl (real i * fl (rate / 16000))\<rfloor> < length input" .
  show "processingData rate input ! i = input ! nat \<lfloor>fl (real i * fl (rate / 16000))\<rfloor>"
    using a i b by (simp add: processingData_def downsample_def Let_def typed_read_def)
next
  assume "rate \<le> 16000"
  then show "processingData rate input = input" by (simp add: processingData_def)
qed

theorem nearest_neighbour_decimation_witness:
  "length (processingData 48000 [Finite 0, Finite 1, Finite 2, Finite 3, Finite 4, Finite 5]) = 2 \<and>
   processingData 48000 [Finite 0, Finite 1, Finite 2, Finite 3, Finite 4, Finite 5] ! 1 = Finite 3 \<and>
   processingData 16000 [Finite 0, Finite 1] = [Finite 0, Finite 1]"
proof -
  let ?xs = "[Finite 0, Finite 1, Finite 2, Finite 3, Finite 4, Finite 5]"
  have r: "(16000 :: real) < 48000 \<and> length ?xs < 2 ^ 52" by simp
  note t = nearest_neighbour_decimation [of 48000 ?xs, THEN conjunct1, rule_format, OF r]
  have l: "length (processingData 48000 ?xs) = 2"
    using t [THEN conjunct1] by (simp add: fl_3 fl_2)
  have i: "1 < length (processingData 48000 ?xs)" using l by simp
  have n: "processingData 48000 ?xs ! 1 = Finite 3"
    using t [THEN conjunct2, rule_format, OF i] by (simp add: fl_3)
  have k: "processingData 16000 [Finite 0, Finite 1] = [Finite 0, Finite 1]"
    using nearest_neighbour_decimation [of 16000 "[Finite 0, Finite 1]", THEN conjunct2] by simp
  from l n k show ?thesis by simp
qed

end
